theory Spec2Isabelle
  imports Complex_Main "HOL-Library.AList"
begin

section \<open>Python values, exceptions and the simulator's scripting interface\<close>

text \<open>
  The module \<^verbatim>\<open>worker/functions.py\<close> is glue around the scripting interface \<^verbatim>\<open>cympy\<close> of
  a closed power-flow simulator. The simulator is not part of the repository, so it enters
  the model as a parameter: a function that, given the calls issued so far and the next
  call, either raises or returns a Python value. Everything the module itself does (building
  dictionaries, ordering the calls, dividing, defaulting, reshaping frames) is modelled as
  written.

  Python numbers are modelled as exact rationals: \<^verbatim>\<open>from __future__ import division\<close> makes
  \<^verbatim>\<open>/\<close> the true division, and rounding of floating-point numbers is left out of the model.
\<close>

datatype pyval =
    PNone
  | PBool bool
  | PInt int
  | PFloat rat
  | PStr string
  | PList "pyval list"
  | PEnum string
  | PObj string

text \<open>
  \<open>PEnum\<close> is a member of \<^verbatim>\<open>cympy.enums\<close>, named by its path; \<open>PObj\<close> is an object
  handed out by the simulator (a node, a device), named by its identifier.
\<close>

datatype exn =
    VendorError
  | KeyError string
  | AttributeError string
  | IndexError
  | ZeroDivisionError
  | TypeError
  | ValueError

text \<open>The truth value Python gives to a value in \<^verbatim>\<open>if temp:\<close>.\<close>

fun truthy :: "pyval \<Rightarrow> bool" where
  "truthy PNone = False"
| "truthy (PBool b) = b"
| "truthy (PInt n) = (n \<noteq> 0)"
| "truthy (PFloat r) = (r \<noteq> 0)"
| "truthy (PStr s) = (s \<noteq> [])"
| "truthy (PList xs) = (xs \<noteq> [])"
| "truthy (PEnum e) = True"
| "truthy (PObj p) = True"

text \<open>\<^verbatim>\<open>list(x)\<close>: the characters of a string, the elements of a list, TypeError otherwise.\<close>

fun py_list :: "pyval \<Rightarrow> exn + pyval list" where
  "py_list (PStr s) = Inr (map (\<lambda>c. PStr [c]) s)"
| "py_list (PList xs) = Inr xs"
| "py_list v = Inl TypeError"

text \<open>\<^verbatim>\<open>x[0]\<close> on a value returned by the simulator.\<close>

fun subscript0 :: "pyval \<Rightarrow> exn + pyval" where
  "subscript0 (PList []) = Inl IndexError"
| "subscript0 (PList (x # xs)) = Inr x"
| "subscript0 (PStr []) = Inl IndexError"
| "subscript0 (PStr (c # cs)) = Inr (PStr [c])"
| "subscript0 v = Inl TypeError"

text \<open>\<^verbatim>\<open>a / n\<close> for a number \<open>a\<close> and a length \<open>n\<close>, under true division.\<close>

definition truediv_len :: "rat \<Rightarrow> nat \<Rightarrow> exn + rat" where
  "truediv_len a n = (if n = 0 then Inl ZeroDivisionError else Inr (a / of_nat n))"

text \<open>\<^verbatim>\<open>int(x)\<close> on a number truncates towards zero.\<close>

definition int_trunc :: "rat \<Rightarrow> int" where
  "int_trunc x = (if 0 \<le> x then \<lfloor>x\<rfloor> else \<lceil>x\<rceil>)"

text \<open>\<^verbatim>\<open>str(n)\<close> for a loop index: its decimal digits.\<close>

definition digit_char :: "nat \<Rightarrow> char" where
  "digit_char d = char_of (48 + d)"

function str_nat :: "nat \<Rightarrow> string" where
  "str_nat n = (if n < 10 then [digit_char n] else str_nat (n div 10) @ [digit_char (n mod 10)])"
  by pat_completeness auto
termination
  by (relation "measure (\<lambda>n. n)") auto

declare str_nat.simps [simp del]

subsection \<open>Objects built for the load allocation\<close>

text \<open>
  \<^verbatim>\<open>cympy.sim.LoadValue()\<close> and \<^verbatim>\<open>cympy.sim.Meter()\<close> return objects whose attributes the
  module assigns one by one. A field is \<open>None\<close> until the module assigns it.
\<close>

record load_value =
  Value1 :: "rat option"
  Value2 :: "rat option"

record meter =
  IsTotalDemand :: "bool option"
  DemandA :: "load_value option"
  DemandB :: "load_value option"
  DemandC :: "load_value option"
  LoadValueType :: "pyval option"

definition new_load_value :: load_value where
  "new_load_value = \<lparr>Value1 = None, Value2 = None\<rparr>"

definition new_meter :: meter where
  "new_meter = \<lparr>IsTotalDemand = None, DemandA = None, DemandB = None, DemandC = None,
     LoadValueType = None\<rparr>"

subsection \<open>Calls into the simulator\<close>

datatype call =
    Open string
  | ListNetworks
  | ListNodes
  | SetValueTopo rat string pyval
  | AddDevice string pyval string "pyval list"
  | QueryInfoDevice string pyval int
  | SetValueDevice rat string string int
  | DeviceSetValue string pyval string
  | LoadFlow
  | LoadFlowRun
  | QueryInfoNode string pyval
  | LoadAllocation
  | Meter
  | LoadValue
  | SetDemand pyval meter
  | LoadAllocationRun "pyval list"

text \<open>
  The arguments are in the order of the Python call: \<open>SetValueTopo value key network\<close>,
  \<open>AddDevice name type section extra\<close> (\<open>extra\<close> holds the optional positional arguments),
  \<open>QueryInfoDevice key number type\<close>, \<open>SetValueDevice value key number type\<close>,
  \<open>DeviceSetValue device value key\<close> for \<^verbatim>\<open>device.SetValue(value, key)\<close>,
  \<open>QueryInfoNode key node\<close>, \<open>SetDemand network demand\<close>.
\<close>

datatype reply = Raises | Returns pyval

type_synonym vendor = "call list \<Rightarrow> call \<Rightarrow> reply"

subsection \<open>Data frames\<close>

text \<open>
  A frame has row labels (its index) and named columns, each as long as the index.
  Columns are kept in order; assigning a column replaces it in place or appends it.
\<close>

record 'l frame =
  index :: "'l list"
  cols :: "(string \<times> pyval list) list"

subsection \<open>The world a function runs in\<close>

text \<open>
  \<open>trace\<close> is the list of calls issued to the simulator so far, oldest first; \<open>files\<close>
  is the content of the file system as far as the module writes it; \<open>frames\<close> is the
  store of data-frame objects, addressed by position.
\<close>

record 'l world =
  trace :: "call list"
  files :: "(string \<times> string) list"
  frames :: "'l frame list"

type_synonym ('l, 'a) run = "'l world \<Rightarrow> (exn + 'a) \<times> 'l world"

definition ret :: "'a \<Rightarrow> ('l, 'a) run" where
  "ret x w = (Inr x, w)"

definition raise :: "exn \<Rightarrow> ('l, 'a) run" where
  "raise e w = (Inl e, w)"

definition lift :: "exn + 'a \<Rightarrow> ('l, 'a) run" where
  "lift r w = (r, w)"

definition bnd :: "('l, 'a) run \<Rightarrow> ('a \<Rightarrow> ('l, 'b) run) \<Rightarrow> ('l, 'b) run" where
  "bnd m f w = (case m w of (Inl e, w') \<Rightarrow> (Inl e, w') | (Inr x, w') \<Rightarrow> f x w')"

text \<open>A call is recorded in the trace whether it returns or raises.\<close>

definition vcall :: "vendor \<Rightarrow> call \<Rightarrow> ('l, pyval) run" where
  "vcall V c w =
     (case V (trace w) c of
        Raises \<Rightarrow> (Inl VendorError, w\<lparr>trace := trace w @ [c]\<rparr>)
      | Returns v \<Rightarrow> (Inr v, w\<lparr>trace := trace w @ [c]\<rparr>))"

text \<open>\<^verbatim>\<open>d[k]\<close> on a dictionary.\<close>

definition getitem :: "(string \<Rightarrow> 'a option) \<Rightarrow> string \<Rightarrow> ('l, 'a) run" where
  "getitem d k = (case d k of None \<Rightarrow> raise (KeyError k) | Some v \<Rightarrow> ret v)"

text \<open>\<^verbatim>\<open>for x in xs: body\<close>, left by the first exception.\<close>

fun for_each :: "'a list \<Rightarrow> ('a \<Rightarrow> ('l, unit) run) \<Rightarrow> ('l, unit) run" where
  "for_each [] body = ret ()"
| "for_each (x # xs) body = bnd (body x) (\<lambda>_. for_each xs body)"

definition enumerate_from0 :: "'a list \<Rightarrow> (nat \<times> 'a) list" where
  "enumerate_from0 xs = zip [0..<length xs] xs"

section \<open>fmu_wrapper\<close>

subsection \<open>Input dictionaries\<close>

definition input_voltages :: "string list \<Rightarrow> rat list \<Rightarrow> (string \<Rightarrow> rat option)" where
  "input_voltages voltage_names voltage_values =
     fold (\<lambda>(name, val) voltages. voltages(name \<mapsto> val)) (zip voltage_names voltage_values)
       Map.empty"

record load =
  section_id :: string
  active_power :: rat
  parameter_name :: string

record pv =
  pv_section_id :: string
  generation :: rat
  pv_parameter_name :: string

definition input_loads :: "string list \<Rightarrow> string list \<Rightarrow> rat list \<Rightarrow> load list" where
  "input_loads load_sections load_parameter_names load_values =
     map (\<lambda>(section, parameter, val).
            \<lparr>section_id = section, active_power = val, parameter_name = parameter\<rparr>)
       (zip load_sections (zip load_parameter_names load_values))"

definition input_pvs :: "string list \<Rightarrow> string list \<Rightarrow> rat list \<Rightarrow> pv list" where
  "input_pvs pv_sections pv_parameter_names pv_values =
     map (\<lambda>(section, parameter, val).
            \<lparr>pv_section_id = section, generation = val, pv_parameter_name = parameter\<rparr>)
       (zip pv_sections (zip pv_parameter_names pv_values))"

subsection \<open>Source voltages\<close>

definition OperatingVoltage :: "nat \<Rightarrow> string" where
  "OperatingVoltage k =
     ''Sources[0].EquivalentSourceModels[0].EquivalentSource.OperatingVoltage'' @ str_nat k"

definition set_voltages :: "vendor \<Rightarrow> (string \<Rightarrow> rat option) \<Rightarrow> ('l, bool) run" where
  "set_voltages V voltages =
     bnd (vcall V ListNetworks) (\<lambda>networks.
     bnd (getitem voltages ''VMAG_A'') (\<lambda>a.
     bnd (lift (subscript0 networks)) (\<lambda>n0.
     bnd (vcall V (SetValueTopo (a / 1000) (OperatingVoltage 1) n0)) (\<lambda>_.
     bnd (getitem voltages ''VMAG_B'') (\<lambda>b.
     bnd (lift (subscript0 networks)) (\<lambda>n0.
     bnd (vcall V (SetValueTopo (b / 1000) (OperatingVoltage 2) n0)) (\<lambda>_.
     bnd (getitem voltages ''VMAG_C'') (\<lambda>c.
     bnd (lift (subscript0 networks)) (\<lambda>n0.
     bnd (vcall V (SetValueTopo (c / 1000) (OperatingVoltage 3) n0)) (\<lambda>_.
     ret True))))))))))"

subsection \<open>Loads\<close>

definition LoadValueKW :: "nat \<Rightarrow> string" where
  "LoadValueKW phase =
     ''CustomerLoads[0].CustomerLoadModels[0].CustomerLoadValues['' @ str_nat phase
       @ ''].LoadValue.KW''"

text \<open>
  One round of \<^verbatim>\<open>for index, load in enumerate(loads)\<close>; the inner loop is
  \<^verbatim>\<open>for phase in range(0, len(phases))\<close>.
\<close>

definition add_load :: "vendor \<Rightarrow> nat \<Rightarrow> load \<Rightarrow> ('l, unit) run" where
  "add_load V i ld =
     bnd (vcall V (AddDevice (''MY_LOAD_'' @ str_nat i) (PInt 14) (section_id ld)
            [PStr ''DEFAULT'', PEnum ''Location.FirstAvailable'', PBool True])) (\<lambda>temp_load_model.
     bnd (vcall V (QueryInfoDevice ''Phase'' (PStr (''MY_LOAD_'' @ str_nat i)) 14)) (\<lambda>r.
     bnd (lift (py_list r)) (\<lambda>phases.
     bnd (lift (truediv_len (active_power ld) (length phases))) (\<lambda>pwr.
     for_each [0..<length phases] (\<lambda>phase.
       bnd (vcall V (SetValueDevice pwr (LoadValueKW phase) (''MY_LOAD_'' @ str_nat i) 14))
         (\<lambda>_. ret ()))))))"

definition add_loads :: "vendor \<Rightarrow> load list \<Rightarrow> ('l, bool) run" where
  "add_loads V loads =
     bnd (for_each (enumerate_from0 loads) (\<lambda>(i, ld). add_load V i ld)) (\<lambda>_. ret True)"

subsection \<open>Photovoltaic devices\<close>

text \<open>\<^verbatim>\<open>device.SetValue(value, key)\<close> on what \<^verbatim>\<open>AddDevice\<close> returned.\<close>

fun device_SetValue :: "vendor \<Rightarrow> pyval \<Rightarrow> pyval \<Rightarrow> string \<Rightarrow> ('l, pyval) run" where
  "device_SetValue V (PObj d) v k = vcall V (DeviceSetValue d v k)"
| "device_SetValue V dev v k = raise (AttributeError ''SetValue'')"

definition panels :: "rat \<Rightarrow> int" where
  "panels g = int_trunc ((g + 30) / (23 * (8 / 100)))"

definition add_pv :: "vendor \<Rightarrow> nat \<Rightarrow> pv \<Rightarrow> ('l, unit) run" where
  "add_pv V i p =
     bnd (vcall V (AddDevice (''my_pv_'' @ str_nat i) (PEnum ''DeviceType.Photovoltaic'')
            (pv_section_id p) [])) (\<lambda>device.
     bnd (device_SetValue V device (PInt (panels (generation p))) ''Np'') (\<lambda>_.
     bnd (device_SetValue V device (PFloat (generation p))
            ''GenerationModels[0].ActiveGeneration'') (\<lambda>_.
     bnd (device_SetValue V device (PFloat (generation p)) ''Inverter.ActivePowerRating'') (\<lambda>_.
     bnd (device_SetValue V device (PFloat (generation p)) ''Inverter.ReactivePowerRating'') (\<lambda>_.
     ret ())))))"

definition add_pvs :: "vendor \<Rightarrow> pv list \<Rightarrow> ('l, bool) run" where
  "add_pvs V pvs =
     bnd (for_each (enumerate_from0 pvs) (\<lambda>(i, p). add_pv V i p)) (\<lambda>_. ret True)"

subsection \<open>Results\<close>

text \<open>The body of \<^verbatim>\<open>_write_results\<close> is two comment lines and \<^verbatim>\<open>return True\<close>.\<close>

definition write_results :: "string \<Rightarrow> ('l, bool) run" where
  "write_results model_filename = ret True"

text \<open>
  One round of the loop of \<^verbatim>\<open>_output_values\<close>: the bare \<^verbatim>\<open>except:\<close> catches whatever the
  query raises.
\<close>

definition output_value :: "vendor \<Rightarrow> pyval \<Rightarrow> pyval \<Rightarrow> string \<Rightarrow> ('l, pyval) run" where
  "output_value V DEFAULT_VALUE node_id category w =
     (case vcall V (QueryInfoNode category node_id) w of
        (Inr temp, w') \<Rightarrow> (if truthy temp then (Inr temp, w') else (Inr DEFAULT_VALUE, w'))
      | (Inl e, w') \<Rightarrow> (Inr DEFAULT_VALUE, w'))"

fun output_pairs :: "vendor \<Rightarrow> pyval \<Rightarrow> (pyval \<times> string) list \<Rightarrow> ('l, pyval list) run" where
  "output_pairs V DEFAULT_VALUE [] = ret []"
| "output_pairs V DEFAULT_VALUE ((node_id, category) # rest) =
     bnd (output_value V DEFAULT_VALUE node_id category) (\<lambda>x.
     bnd (output_pairs V DEFAULT_VALUE rest) (\<lambda>xs. ret (x # xs)))"

definition output_values :: "vendor \<Rightarrow> pyval list \<Rightarrow> string list \<Rightarrow> pyval \<Rightarrow> ('l, pyval list) run" where
  "output_values V output_nodes output_names DEFAULT_VALUE =
     output_pairs V DEFAULT_VALUE (zip output_nodes output_names)"

subsection \<open>The wrapper\<close>

text \<open>
  \<^verbatim>\<open>loads\<close> and \<^verbatim>\<open>pvs\<close> are a list or \<^verbatim>\<open>False\<close>; \<^verbatim>\<open>if loads:\<close> holds for a non-empty list.
\<close>

definition nonempty_list :: "'a list option \<Rightarrow> bool" where
  "nonempty_list x = (case x of None \<Rightarrow> False | Some xs \<Rightarrow> xs \<noteq> [])"

definition fmu_wrapper ::
  "vendor \<Rightarrow> string \<Rightarrow> string list \<Rightarrow> rat list \<Rightarrow> string list \<Rightarrow> string list \<Rightarrow> rat list \<Rightarrow>
   string list \<Rightarrow> string list \<Rightarrow> rat list \<Rightarrow> string list \<Rightarrow> pyval list \<Rightarrow> string \<Rightarrow>
   ('l, pyval list) run" where
  "fmu_wrapper V model_filename voltage_names voltage_values
       load_sections load_parameter_names load_values
       pv_sections pv_parameter_names pv_values
       output_names output_nodes write_result =
     (let voltages = input_voltages voltage_names voltage_values;
          loads = (if length load_sections > 0
                   then Some (input_loads load_sections load_parameter_names load_values)
                   else None);
          pvs = (if length pv_sections > 0
                 then Some (input_pvs pv_sections pv_parameter_names pv_values)
                 else None);
          write_result' = (write_result \<in> set [''True'', ''true'', ''1''])
      in
       bnd (vcall V (Open model_filename)) (\<lambda>_.
       bnd (set_voltages V voltages) (\<lambda>_.
       bnd (if nonempty_list loads then add_loads V (the loads) else ret True) (\<lambda>_.
       bnd (if nonempty_list pvs then add_pvs V (the pvs) else ret True) (\<lambda>_.
       bnd (vcall V LoadFlow) (\<lambda>lf.
       bnd (vcall V LoadFlowRun) (\<lambda>_.
       bnd (if write_result' then write_results model_filename else ret True) (\<lambda>_.
       output_values V output_nodes output_names (PInt 0)))))))))"

section \<open>load_allocation\<close>

text \<open>Assignments to the attributes of the demand object and of its per-phase values.\<close>

definition with_Value1 :: "rat \<Rightarrow> load_value option \<Rightarrow> load_value option" where
  "with_Value1 v d = map_option (\<lambda>lv. lv\<lparr>Value1 := Some v\<rparr>) d"

definition with_Value2 :: "rat \<Rightarrow> load_value option \<Rightarrow> load_value option" where
  "with_Value2 v d = map_option (\<lambda>lv. lv\<lparr>Value2 := Some v\<rparr>) d"

definition load_allocation :: "vendor \<Rightarrow> (string \<Rightarrow> rat option) \<Rightarrow> ('l, unit) run" where
  "load_allocation V vals =
     bnd (vcall V LoadAllocation) (\<lambda>la.
     bnd (vcall V Meter) (\<lambda>_.
     bnd (ret (new_meter\<lparr>IsTotalDemand := Some False\<rparr>)) (\<lambda>demand.
     bnd (vcall V LoadValue) (\<lambda>_.
     bnd (ret (demand\<lparr>DemandA := Some new_load_value\<rparr>)) (\<lambda>demand.
     bnd (getitem vals ''P_A'') (\<lambda>x.
     bnd (ret (demand\<lparr>DemandA := with_Value1 x (DemandA demand)\<rparr>)) (\<lambda>demand.
     bnd (getitem vals ''Q_A'') (\<lambda>x.
     bnd (ret (demand\<lparr>DemandA := with_Value2 x (DemandA demand)\<rparr>)) (\<lambda>demand.
     bnd (vcall V LoadValue) (\<lambda>_.
     bnd (ret (demand\<lparr>DemandB := Some new_load_value\<rparr>)) (\<lambda>demand.
     bnd (getitem vals ''P_B'') (\<lambda>x.
     bnd (ret (demand\<lparr>DemandB := with_Value1 x (DemandB demand)\<rparr>)) (\<lambda>demand.
     bnd (getitem vals ''Q_B'') (\<lambda>x.
     bnd (ret (demand\<lparr>DemandB := with_Value2 x (DemandB demand)\<rparr>)) (\<lambda>demand.
     bnd (vcall V LoadValue) (\<lambda>_.
     bnd (ret (demand\<lparr>DemandC := Some new_load_value\<rparr>)) (\<lambda>demand.
     bnd (getitem vals ''P_C'') (\<lambda>x.
     bnd (ret (demand\<lparr>DemandC := with_Value1 x (DemandC demand)\<rparr>)) (\<lambda>demand.
     bnd (getitem vals ''Q_C'') (\<lambda>x.
     bnd (ret (demand\<lparr>DemandC := with_Value2 x (DemandC demand)\<rparr>)) (\<lambda>demand.
     bnd (ret (demand\<lparr>LoadValueType := Some (PEnum ''LoadValueType.KW_KVAR'')\<rparr>)) (\<lambda>demand.
     bnd (vcall V ListNetworks) (\<lambda>networks.
     bnd (lift (subscript0 networks)) (\<lambda>n0.
     bnd (vcall V (SetDemand n0 demand)) (\<lambda>_.
     bnd (getitem vals ''VMAG_A'') (\<lambda>a.
     bnd (lift (subscript0 networks)) (\<lambda>n0.
     bnd (vcall V (SetValueTopo (a / 1000) (OperatingVoltage 1) n0)) (\<lambda>_.
     bnd (getitem vals ''VMAG_B'') (\<lambda>b.
     bnd (lift (subscript0 networks)) (\<lambda>n0.
     bnd (vcall V (SetValueTopo (b / 1000) (OperatingVoltage 2) n0)) (\<lambda>_.
     bnd (getitem vals ''VMAG_C'') (\<lambda>c.
     bnd (lift (subscript0 networks)) (\<lambda>n0.
     bnd (vcall V (SetValueTopo (c / 1000) (OperatingVoltage 3) n0)) (\<lambda>_.
     bnd (lift (subscript0 networks)) (\<lambda>n0.
     bnd (vcall V (LoadAllocationRun [n0])) (\<lambda>_.
     ret ()))))))))))))))))))))))))))))))))))))"

section \<open>Result extraction into data frames\<close>

subsection \<open>Python's conversions of a cell\<close>

text \<open>
  How Python reads a number out of a string is not the module's code; it is a parameter
  of the model. \<open>None\<close> stands for the ValueError of a string that is no numeral.
\<close>

record builtins =
  int_of_str :: "string \<Rightarrow> int option"
  float_of_str :: "string \<Rightarrow> rat option"

fun py_int :: "builtins \<Rightarrow> pyval \<Rightarrow> exn + int" where
  "py_int B (PInt n) = Inr n"
| "py_int B (PBool b) = Inr (if b then 1 else 0)"
| "py_int B (PFloat r) = Inr (int_trunc r)"
| "py_int B (PStr s) = (case int_of_str B s of None \<Rightarrow> Inl ValueError | Some n \<Rightarrow> Inr n)"
| "py_int B v = Inl TypeError"

fun py_float :: "builtins \<Rightarrow> pyval \<Rightarrow> exn + rat" where
  "py_float B (PFloat r) = Inr r"
| "py_float B (PInt n) = Inr (of_int n)"
| "py_float B (PBool b) = Inr (if b then 1 else 0)"
| "py_float B (PStr s) = (case float_of_str B s of None \<Rightarrow> Inl ValueError | Some r \<Rightarrow> Inr r)"
| "py_float B v = Inl TypeError"

text \<open>
  \<^verbatim>\<open>lambda x: None if x is '' else float(x)\<close>. The test \<^verbatim>\<open>x is ''\<close> compares object
  identity; it is modelled as equality with the empty string, which is what it decides
  for the strings the interpreter shares.
\<close>

definition none_or_float :: "builtins \<Rightarrow> pyval \<Rightarrow> exn + pyval" where
  "none_or_float B x =
     (if x = PStr [] then Inr PNone
      else case py_float B x of Inl e \<Rightarrow> Inl e | Inr r \<Rightarrow> Inr (PFloat r))"

text \<open>\<^verbatim>\<open>x.ID\<close> on a node object.\<close>

fun node_ID :: "pyval \<Rightarrow> exn + pyval" where
  "node_ID (PObj i) = Inr (PStr i)"
| "node_ID v = Inl (AttributeError ''ID'')"

fun map_exn :: "('a \<Rightarrow> exn + 'b) \<Rightarrow> 'a list \<Rightarrow> exn + 'b list" where
  "map_exn f [] = Inr []"
| "map_exn f (x # xs) =
     (case f x of
        Inl e \<Rightarrow> Inl e
      | Inr y \<Rightarrow> (case map_exn f xs of Inl e \<Rightarrow> Inl e | Inr ys \<Rightarrow> Inr (y # ys)))"

subsection \<open>Frames in the store\<close>

text \<open>A row as \<^verbatim>\<open>itertuples()\<close> yields it: the label and one field per column.\<close>

record 'l row =
  Index :: 'l
  cells :: "(string \<times> pyval) list"

definition itertuples :: "'l frame \<Rightarrow> 'l row list" where
  "itertuples F =
     map (\<lambda>k. \<lparr>Index = index F ! k, cells = map (\<lambda>(c, vs). (c, vs ! k)) (cols F)\<rparr>)
       [0..<length (index F)]"

definition getattr :: "'l row \<Rightarrow> string \<Rightarrow> exn + pyval" where
  "getattr r a = (case map_of (cells r) a of None \<Rightarrow> Inl (AttributeError a) | Some v \<Rightarrow> Inr v)"

text \<open>\<^verbatim>\<open>frame.copy()\<close> makes a new object with the same index and columns.\<close>

definition frame_copy :: "nat \<Rightarrow> ('l, nat) run" where
  "frame_copy a w = (Inr (length (frames w)), w\<lparr>frames := frames w @ [frames w ! a]\<rparr>)"

definition new_frame :: "'l frame \<Rightarrow> ('l, nat) run" where
  "new_frame F w = (Inr (length (frames w)), w\<lparr>frames := frames w @ [F]\<rparr>)"

definition frame_len :: "nat \<Rightarrow> ('l, nat) run" where
  "frame_len a w = (Inr (length (index (frames w ! a))), w)"

definition frame_rows :: "nat \<Rightarrow> ('l, 'l row list) run" where
  "frame_rows a w = (Inr (itertuples (frames w ! a)), w)"

definition update_frame :: "nat \<Rightarrow> ('l frame \<Rightarrow> 'l frame) \<Rightarrow> ('l, unit) run" where
  "update_frame a f w = (Inr (), w\<lparr>frames := (frames w)[a := f (frames w ! a)]\<rparr>)"

text \<open>\<^verbatim>\<open>frame[c] = values\<close>: the values must be as many as the rows.\<close>

definition set_column :: "nat \<Rightarrow> string \<Rightarrow> pyval list \<Rightarrow> ('l, unit) run" where
  "set_column a c vs w =
     (if length vs = length (index (frames w ! a))
      then update_frame a (\<lambda>F. F\<lparr>cols := AList.update c vs (cols F)\<rparr>) w
      else raise ValueError w)"

definition get_column :: "nat \<Rightarrow> string \<Rightarrow> ('l, pyval list) run" where
  "get_column a c w =
     (case map_of (cols (frames w ! a)) c of
        None \<Rightarrow> raise (KeyError c) w
      | Some vs \<Rightarrow> ret vs w)"

text \<open>\<^verbatim>\<open>frame[c] = [0] * len(frame)\<close>.\<close>

definition zero_column :: "nat \<Rightarrow> string \<Rightarrow> ('l, unit) run" where
  "zero_column a c = bnd (frame_len a) (\<lambda>n. set_column a c (replicate n (PInt 0)))"

text \<open>\<^verbatim>\<open>frame[target] = frame[source].apply(f)\<close>.\<close>

definition assign_apply ::
  "nat \<Rightarrow> string \<Rightarrow> string \<Rightarrow> (pyval \<Rightarrow> exn + pyval) \<Rightarrow> ('l, unit) run" where
  "assign_apply a target source f =
     bnd (get_column a source) (\<lambda>series.
     bnd (lift (map_exn f series)) (\<lambda>series'.
     set_column a target series'))"

text \<open>
  \<^verbatim>\<open>frame.loc[label, c] = v\<close> writes \<open>v\<close> into column \<open>c\<close> of every row labelled \<open>label\<close>.
  A label the index does not have adds a row, and a column the frame does not have adds a
  column; pandas fills the other new cells with NaN, for which the model writes \<open>PNone\<close>.
\<close>

definition loc_assign :: "'l \<Rightarrow> string \<Rightarrow> pyval \<Rightarrow> 'l frame \<Rightarrow> 'l frame" where
  "loc_assign label c v F =
     (let F1 = (if label \<in> set (index F) then F
                else \<lparr>index = index F @ [label],
                      cols = map (\<lambda>(n, vs). (n, vs @ [PNone])) (cols F)\<rparr>);
          old = (case map_of (cols F1) c of
                   None \<Rightarrow> replicate (length (index F1)) PNone
                 | Some vs \<Rightarrow> vs)
      in F1\<lparr>cols := AList.update c
                (map (\<lambda>(l, x). if l = label then v else x) (zip (index F1) old)) (cols F1)\<rparr>)"

definition loc_set :: "nat \<Rightarrow> 'l \<Rightarrow> string \<Rightarrow> pyval \<Rightarrow> ('l, unit) run" where
  "loc_set a label c v = update_frame a (loc_assign label c v)"

subsection \<open>One query stored into one cell\<close>

text \<open>
  \<^verbatim>\<open>target.loc[device.Index, column] = cympy.study.QueryInfoDevice(key,
  device.device_number, int(device.device_type_id))\<close>
\<close>

definition store_device_query ::
  "vendor \<Rightarrow> builtins \<Rightarrow> nat \<Rightarrow> 'l row \<Rightarrow> string \<Rightarrow> string \<Rightarrow> ('l, unit) run" where
  "store_device_query V B target device column key =
     bnd (lift (getattr device ''device_number'')) (\<lambda>device_number.
     bnd (lift (getattr device ''device_type_id'')) (\<lambda>device_type_id.
     bnd (lift (py_int B device_type_id)) (\<lambda>t.
     bnd (vcall V (QueryInfoDevice key device_number t)) (\<lambda>x.
     loc_set target (Index device) column x))))"

text \<open>\<^verbatim>\<open>target.loc[node.Index, column] = cympy.study.QueryInfoNode(key, node.node_id)\<close>\<close>

definition store_node_query ::
  "vendor \<Rightarrow> nat \<Rightarrow> 'l row \<Rightarrow> string \<Rightarrow> string \<Rightarrow> ('l, unit) run" where
  "store_node_query V target node column key =
     bnd (lift (getattr node ''node_id'')) (\<lambda>node_id.
     bnd (vcall V (QueryInfoNode key node_id)) (\<lambda>x.
     loc_set target (Index node) column x))"

subsection \<open>get_voltage, get_overload, get_load, get_distance, get_coordinates\<close>

definition get_voltage :: "vendor \<Rightarrow> builtins \<Rightarrow> nat \<Rightarrow> bool \<Rightarrow> ('l, nat) run" where
  "get_voltage V B frame is_node =
     bnd (frame_copy frame) (\<lambda>voltage.
     bnd (zero_column voltage ''voltage_A'') (\<lambda>_.
     bnd (zero_column voltage ''voltage_B'') (\<lambda>_.
     bnd (zero_column voltage ''voltage_C'') (\<lambda>_.
     bnd (frame_rows frame) (\<lambda>rows.
     bnd (for_each rows (\<lambda>val.
            if \<not> is_node then
              bnd (store_device_query V B voltage val ''voltage_A'' ''VpuA'') (\<lambda>_.
              bnd (store_device_query V B voltage val ''voltage_B'' ''VpuB'') (\<lambda>_.
              store_device_query V B voltage val ''voltage_C'' ''VpuC''))
            else
              bnd (store_node_query V voltage val ''voltage_A'' ''VpuA'') (\<lambda>_.
              bnd (store_node_query V voltage val ''voltage_B'' ''VpuB'') (\<lambda>_.
              store_node_query V voltage val ''voltage_C'' ''VpuC'')))) (\<lambda>_.
     bnd (for_each [''voltage_A'', ''voltage_B'', ''voltage_C''] (\<lambda>column.
            assign_apply voltage column column (none_or_float B))) (\<lambda>_.
     ret voltage)))))))"

definition get_overload :: "vendor \<Rightarrow> builtins \<Rightarrow> nat \<Rightarrow> ('l, nat) run" where
  "get_overload V B devices =
     bnd (frame_copy devices) (\<lambda>overload.
     bnd (zero_column overload ''overload_A'') (\<lambda>_.
     bnd (zero_column overload ''overload_B'') (\<lambda>_.
     bnd (zero_column overload ''overload_C'') (\<lambda>_.
     bnd (frame_rows devices) (\<lambda>rows.
     bnd (for_each rows (\<lambda>device.
            bnd (store_device_query V B overload device ''overload_A'' ''OverloadAmpsA'') (\<lambda>_.
            bnd (store_device_query V B overload device ''overload_B'' ''OverloadAmpsB'') (\<lambda>_.
            store_device_query V B overload device ''overload_C'' ''OverloadAmpsC'')))) (\<lambda>_.
     bnd (for_each [''overload_A'', ''overload_B'', ''overload_C''] (\<lambda>column.
            assign_apply overload column column (none_or_float B))) (\<lambda>_.
     ret overload)))))))"

definition load_columns :: "string list" where
  "load_columns = [''MWA'', ''MWB'', ''MWC'', ''MWTOT'', ''MVARA'', ''MVARB'', ''MVARC'', ''MVARTOT'']"

definition get_load :: "vendor \<Rightarrow> builtins \<Rightarrow> nat \<Rightarrow> ('l, nat) run" where
  "get_load V B devices =
     bnd (frame_copy devices) (\<lambda>ld.
     bnd (zero_column ld ''MWA'') (\<lambda>_.
     bnd (zero_column ld ''MWB'') (\<lambda>_.
     bnd (zero_column ld ''MWC'') (\<lambda>_.
     bnd (zero_column ld ''MWTOT'') (\<lambda>_.
     bnd (zero_column ld ''MVARA'') (\<lambda>_.
     bnd (zero_column ld ''MVARB'') (\<lambda>_.
     bnd (zero_column ld ''MVARC'') (\<lambda>_.
     bnd (zero_column ld ''MVARTOT'') (\<lambda>_.
     bnd (frame_rows devices) (\<lambda>rows.
     bnd (for_each rows (\<lambda>device.
            bnd (store_device_query V B ld device ''MWA'' ''MWA'') (\<lambda>_.
            bnd (store_device_query V B ld device ''MWB'' ''MWB'') (\<lambda>_.
            bnd (store_device_query V B ld device ''MWC'' ''MWC'') (\<lambda>_.
            bnd (store_device_query V B ld device ''MWTOT'' ''MWTOT'') (\<lambda>_.
            bnd (store_device_query V B ld device ''MVARA'' ''MVARA'') (\<lambda>_.
            bnd (store_device_query V B ld device ''MVARB'' ''MVARB'') (\<lambda>_.
            bnd (store_device_query V B ld device ''MVARC'' ''MVARC'') (\<lambda>_.
            store_device_query V B ld device ''MVARTOT'' ''MVARTOT''))))))))) (\<lambda>_.
     bnd (for_each load_columns (\<lambda>column.
            assign_apply ld column column (none_or_float B))) (\<lambda>_.
     ret ld))))))))))))"

definition get_distance :: "vendor \<Rightarrow> builtins \<Rightarrow> nat \<Rightarrow> ('l, nat) run" where
  "get_distance V B devices =
     bnd (frame_copy devices) (\<lambda>distance.
     bnd (zero_column distance ''distance'') (\<lambda>_.
     bnd (frame_rows devices) (\<lambda>rows.
     bnd (for_each rows (\<lambda>device.
            store_device_query V B distance device ''distance'' ''Distance'')) (\<lambda>_.
     bnd (for_each [''distance''] (\<lambda>column.
            assign_apply distance column column (none_or_float B))) (\<lambda>_.
     ret distance)))))"

text \<open>
  The two lambdas of get_coordinates:
  \<^verbatim>\<open>lambda x: None if x is '' else float(x) / (1.26 * 100000)\<close> and
  \<^verbatim>\<open>lambda x: None if x is '' else float(x) / (100000)\<close>.
\<close>

definition get_coordinates_latitude :: "builtins \<Rightarrow> pyval \<Rightarrow> exn + pyval" where
  "get_coordinates_latitude B x =
     (if x = PStr [] then Inr PNone
      else case py_float B x of
             Inl e \<Rightarrow> Inl e
           | Inr r \<Rightarrow> Inr (PFloat (r / ((126 / 100) * 100000))))"

definition get_coordinates_longitude :: "builtins \<Rightarrow> pyval \<Rightarrow> exn + pyval" where
  "get_coordinates_longitude B x =
     (if x = PStr [] then Inr PNone
      else case py_float B x of
             Inl e \<Rightarrow> Inl e
           | Inr r \<Rightarrow> Inr (PFloat (r / 100000)))"

definition get_coordinates :: "vendor \<Rightarrow> builtins \<Rightarrow> nat \<Rightarrow> ('l, nat) run" where
  "get_coordinates V B devices =
     bnd (frame_copy devices) (\<lambda>coordinates.
     bnd (zero_column coordinates ''latitude'') (\<lambda>_.
     bnd (zero_column coordinates ''longitude'') (\<lambda>_.
     bnd (zero_column coordinates ''section_id'') (\<lambda>_.
     bnd (frame_rows devices) (\<lambda>rows.
     bnd (for_each rows (\<lambda>device.
            bnd (store_device_query V B coordinates device ''latitude'' ''CoordY'') (\<lambda>_.
            bnd (store_device_query V B coordinates device ''longitude'' ''CoordX'') (\<lambda>_.
            store_device_query V B coordinates device ''section_id'' ''SectionId'')))) (\<lambda>_.
     bnd (for_each [''latitude''] (\<lambda>column.
            assign_apply coordinates column column (get_coordinates_latitude B))) (\<lambda>_.
     bnd (for_each [''longitude''] (\<lambda>column.
            assign_apply coordinates column column (get_coordinates_longitude B))) (\<lambda>_.
     ret coordinates))))))))"

subsection \<open>list_nodes\<close>

text \<open>
  \<^verbatim>\<open>pandas.DataFrame(nodes, columns=['node_object'])\<close> on the list the simulator returned:
  one column, rows labelled 0, 1, 2, ... Only a list and \<^verbatim>\<open>None\<close> (an empty frame) are
  modelled; anything else is taken to be rejected by the constructor.
\<close>

definition DataFrame :: "pyval \<Rightarrow> string \<Rightarrow> (int, nat) run" where
  "DataFrame data column =
     (case data of
        PList xs \<Rightarrow> new_frame \<lparr>index = map int [0..<length xs], cols = [(column, xs)]\<rparr>
      | PNone \<Rightarrow> new_frame \<lparr>index = [], cols = [(column, [])]\<rparr>
      | _ \<Rightarrow> raise ValueError)"

text \<open>
  The two lambdas of list_nodes for the coordinates, and the loop over
  \<^verbatim>\<open>nodes.itertuples()\<close>, which reads only the label and \<^verbatim>\<open>node_id\<close> of each row and
  writes neither.
\<close>

definition list_nodes_latitude :: "builtins \<Rightarrow> pyval \<Rightarrow> exn + pyval" where
  "list_nodes_latitude B x =
     (if x = PStr [] then Inr PNone
      else case py_float B x of
             Inl e \<Rightarrow> Inl e
           | Inr r \<Rightarrow> Inr (PFloat (r / ((126 / 100) * 100000))))"

definition list_nodes_longitude :: "builtins \<Rightarrow> pyval \<Rightarrow> exn + pyval" where
  "list_nodes_longitude B x =
     (if x = PStr [] then Inr PNone
      else case py_float B x of
             Inl e \<Rightarrow> Inl e
           | Inr r \<Rightarrow> Inr (PFloat (r / 100000)))"

definition list_nodes :: "vendor \<Rightarrow> builtins \<Rightarrow> (int, nat) run" where
  "list_nodes V B =
     bnd (vcall V ListNodes) (\<lambda>nodes_list.
     bnd (DataFrame nodes_list ''node_object'') (\<lambda>nodes.
     bnd (assign_apply nodes ''node_id'' ''node_object'' node_ID) (\<lambda>_.
     bnd (zero_column nodes ''section_id'') (\<lambda>_.
     bnd (zero_column nodes ''latitude'') (\<lambda>_.
     bnd (zero_column nodes ''longitude'') (\<lambda>_.
     bnd (zero_column nodes ''distance'') (\<lambda>_.
     bnd (frame_rows nodes) (\<lambda>rows.
     bnd (for_each rows (\<lambda>node.
            bnd (store_node_query V nodes node ''section_id'' ''SectionId'') (\<lambda>_.
            bnd (store_node_query V nodes node ''latitude'' ''CoordY'') (\<lambda>_.
            bnd (store_node_query V nodes node ''longitude'' ''CoordX'') (\<lambda>_.
            store_node_query V nodes node ''distance'' ''Distance''))))) (\<lambda>_.
     bnd (for_each [''latitude''] (\<lambda>column.
            assign_apply nodes column column (list_nodes_latitude B))) (\<lambda>_.
     bnd (for_each [''longitude''] (\<lambda>column.
            assign_apply nodes column column (list_nodes_longitude B))) (\<lambda>_.
     bnd (for_each [''distance''] (\<lambda>column.
            assign_apply nodes column column (none_or_float B))) (\<lambda>_.
     ret nodes))))))))))))"

subsection \<open>Weakest preconditions\<close>

text \<open>
  \<open>wp m Q w\<close>: the run \<open>m\<close> started in \<open>w\<close> ends with a result and a world that satisfy
  \<open>Q\<close>. Every run is a total function, so this is a statement about the one outcome.
\<close>

definition wp :: "('l, 'a) run \<Rightarrow> ((exn + 'a) \<Rightarrow> 'l world \<Rightarrow> bool) \<Rightarrow> 'l world \<Rightarrow> bool" where
  "wp m Q w = Q (fst (m w)) (snd (m w))"

definition reply_sum :: "reply \<Rightarrow> exn + pyval" where
  "reply_sum r = (case r of Raises \<Rightarrow> Inl VendorError | Returns v \<Rightarrow> Inr v)"

definition item_sum :: "(string \<Rightarrow> 'a option) \<Rightarrow> string \<Rightarrow> exn + 'a" where
  "item_sum d k = (case d k of None \<Rightarrow> Inl (KeyError k) | Some v \<Rightarrow> Inr v)"

text \<open>The world changed by new calls only, each of them of the kind \<open>P\<close>.\<close>

definition grown :: "(call \<Rightarrow> bool) \<Rightarrow> 'l world \<Rightarrow> 'l world \<Rightarrow> bool" where
  "grown P w w' \<longleftrightarrow> (\<exists>evs. w' = w\<lparr>trace := trace w @ evs\<rparr> \<and> list_all P evs)"

subsection \<open>Kinds of calls\<close>

fun is_voltage_call :: "call \<Rightarrow> bool" where
  "is_voltage_call ListNetworks = True"
| "is_voltage_call (SetValueTopo v k n) = True"
| "is_voltage_call c = False"

fun is_load_call :: "call \<Rightarrow> bool" where
  "is_load_call (AddDevice name t s extra) = (t = PInt 14)"
| "is_load_call (QueryInfoDevice k n t) = True"
| "is_load_call (SetValueDevice v k n t) = True"
| "is_load_call c = False"

fun is_pv_call :: "call \<Rightarrow> bool" where
  "is_pv_call (AddDevice name t s extra) = (t = PEnum ''DeviceType.Photovoltaic'')"
| "is_pv_call (DeviceSetValue d v k) = True"
| "is_pv_call c = False"

fun is_add_device :: "call \<Rightarrow> bool" where
  "is_add_device (AddDevice name t s extra) = True"
| "is_add_device c = False"

fun is_node_query :: "call \<Rightarrow> bool" where
  "is_node_query (QueryInfoNode k n) = True"
| "is_node_query c = False"

fun is_topo_write :: "call \<Rightarrow> bool" where
  "is_topo_write (SetValueTopo v k n) = True"
| "is_topo_write c = False"

text \<open>
  The calls \<open>volt\<close> are those of a completed \<^verbatim>\<open>_set_voltages\<close> started after the calls
  \<open>h\<close>: the list of networks is asked for, and the three magnitudes, divided by 1000, are
  written to the first network of the reply.
\<close>

definition voltage_writes ::
  "vendor \<Rightarrow> (string \<Rightarrow> rat option) \<Rightarrow> call list \<Rightarrow> call list \<Rightarrow> bool" where
  "voltage_writes V vs h volt \<longleftrightarrow>
     (\<exists>a b c nets n0.
        vs ''VMAG_A'' = Some a \<and> vs ''VMAG_B'' = Some b \<and> vs ''VMAG_C'' = Some c \<and>
        V h ListNetworks = Returns nets \<and> subscript0 nets = Inr n0 \<and>
        volt = [ListNetworks, SetValueTopo (a / 1000) (OperatingVoltage 1) n0,
                SetValueTopo (b / 1000) (OperatingVoltage 2) n0,
                SetValueTopo (c / 1000) (OperatingVoltage 3) n0])"

text \<open>
  The call \<open>c\<close> writes one magnitude of \<open>vs\<close>, divided by 1000, to the operating voltage
  of its phase, on the first network of the reply to \<^verbatim>\<open>ListNetworks\<close> after the calls \<open>h\<close>.
\<close>

definition kilovolt_write ::
  "vendor \<Rightarrow> (string \<Rightarrow> rat option) \<Rightarrow> call list \<Rightarrow> call \<Rightarrow> bool" where
  "kilovolt_write V vs h c \<longleftrightarrow>
     (\<exists>nets n0. V h ListNetworks = Returns nets \<and> subscript0 nets = Inr n0 \<and>
        ((\<exists>a. vs ''VMAG_A'' = Some a \<and> c = SetValueTopo (a / 1000) (OperatingVoltage 1) n0) \<or>
         (\<exists>b. vs ''VMAG_B'' = Some b \<and> c = SetValueTopo (b / 1000) (OperatingVoltage 2) n0) \<or>
         (\<exists>x. vs ''VMAG_C'' = Some x \<and> c = SetValueTopo (x / 1000) (OperatingVoltage 3) n0)))"

subsection \<open>The output extraction, call by call\<close>

text \<open>The query issued for a pair \<open>(node_id, name)\<close> of the zipped output lists.\<close>

definition qcall :: "pyval \<times> string \<Rightarrow> call" where
  "qcall p = QueryInfoNode (snd p) (fst p)"

text \<open>What the output list holds for a reply: the value, or the default.\<close>

definition or_default :: "pyval \<Rightarrow> reply \<Rightarrow> pyval" where
  "or_default d r = (case r of Raises \<Rightarrow> d | Returns v \<Rightarrow> if truthy v then v else d)"

fun replies :: "vendor \<Rightarrow> pyval \<Rightarrow> call list \<Rightarrow> (pyval \<times> string) list \<Rightarrow> pyval list" where
  "replies V d h [] = []"
| "replies V d h (p # ps) = or_default d (V h (qcall p)) # replies V d (h @ [qcall p]) ps"

subsection \<open>A sample session\<close>

text \<open>
  The inputs of the example in the docstring of \<^verbatim>\<open>fmu_wrapper\<close>, and a simulator that
  answers them: one feeder, three-phase devices, and node queries of which \<^verbatim>\<open>KWB\<close>
  raises and \<^verbatim>\<open>KWC\<close> returns the empty string.
\<close>

definition demo_vendor :: vendor where
  "demo_vendor h c =
     (case c of
        ListNetworks \<Rightarrow> Returns (PList [PStr ''BU0001'', PStr ''BU0002''])
      | ListNodes \<Rightarrow> Returns (PList [PObj ''800036819'', PObj ''800036820''])
      | AddDevice name t s extra \<Rightarrow> Returns (PObj name)
      | QueryInfoDevice k n t \<Rightarrow>
          (if k = ''Phase'' then Returns (PStr ''ABC'')
           else if k = ''VpuB'' then Returns (PStr '''')
           else Returns (PStr ''1.02''))
      | QueryInfoNode k n \<Rightarrow>
          (if k = ''KWB'' then Raises
           else if k = ''KWC'' then Returns (PStr '''')
           else Returns (PStr ''33.2''))
      | _ \<Rightarrow> Returns PNone)"

definition demo_world :: "int world" where
  "demo_world = \<lparr>trace = [], files = [], frames = []\<rparr>"

definition demo_voltage_names :: "string list" where
  "demo_voltage_names = [''VMAG_A'', ''VMAG_B'', ''VMAG_C'', ''VANG_A'', ''VANG_B'', ''VANG_C'']"

definition demo_voltage_values :: "rat list" where
  "demo_voltage_values = [2520, 2520, 2520, 0, - 120, 120]"

definition demo_output_names :: "string list" where
  "demo_output_names = [''KWA'', ''KWB'', ''KWC'', ''KVARA'']"

definition demo_output_nodes :: "pyval list" where
  "demo_output_nodes = [PStr ''800036819'', PStr ''800036819'', PStr ''800036819'',
     PStr ''800036819'', PStr ''800036819'', PStr ''800036819'']"

definition demo_run :: "(exn + pyval list) \<times> int world" where
  "demo_run = fmu_wrapper demo_vendor ''BU0001.sxst'' demo_voltage_names demo_voltage_values
     [''800033503''] [''KW''] [100] [''800033504''] [''KW''] [100]
     demo_output_names demo_output_nodes ''False'' demo_world"

definition demo_trace :: "call list" where
  "demo_trace =
     [Open ''BU0001.sxst'',
      ListNetworks,
      SetValueTopo (63 / 25) (OperatingVoltage 1) (PStr ''BU0001''),
      SetValueTopo (63 / 25) (OperatingVoltage 2) (PStr ''BU0001''),
      SetValueTopo (63 / 25) (OperatingVoltage 3) (PStr ''BU0001''),
      AddDevice ''MY_LOAD_0'' (PInt 14) ''800033503''
        [PStr ''DEFAULT'', PEnum ''Location.FirstAvailable'', PBool True],
      QueryInfoDevice ''Phase'' (PStr ''MY_LOAD_0'') 14,
      SetValueDevice (100 / 3) (LoadValueKW 0) ''MY_LOAD_0'' 14,
      SetValueDevice (100 / 3) (LoadValueKW 1) ''MY_LOAD_0'' 14,
      SetValueDevice (100 / 3) (LoadValueKW 2) ''MY_LOAD_0'' 14,
      AddDevice ''my_pv_0'' (PEnum ''DeviceType.Photovoltaic'') ''800033504'' [],
      DeviceSetValue ''my_pv_0'' (PInt 70) ''Np'',
      DeviceSetValue ''my_pv_0'' (PFloat 100) ''GenerationModels[0].ActiveGeneration'',
      DeviceSetValue ''my_pv_0'' (PFloat 100) ''Inverter.ActivePowerRating'',
      DeviceSetValue ''my_pv_0'' (PFloat 100) ''Inverter.ReactivePowerRating'',
      LoadFlow,
      LoadFlowRun,
      QueryInfoNode ''KWA'' (PStr ''800036819''),
      QueryInfoNode ''KWB'' (PStr ''800036819''),
      QueryInfoNode ''KWC'' (PStr ''800036819''),
      QueryInfoNode ''KVARA'' (PStr ''800036819'')]"

subsection \<open>The load allocation, call by call\<close>

text \<open>The objects that load_allocation creates before it asks for the networks.\<close>

definition la_prelude :: "call list" where
  "la_prelude = [LoadAllocation, Meter, LoadValue, LoadValue, LoadValue]"

text \<open>The first network of the reply to \<^verbatim>\<open>ListNetworks\<close> after the calls \<open>h\<close>.\<close>

definition first_network :: "vendor \<Rightarrow> call list \<Rightarrow> pyval \<Rightarrow> bool" where
  "first_network V h n \<longleftrightarrow> (\<exists>nets. V h ListNetworks = Returns nets \<and> subscript0 nets = Inr n)"

text \<open>
  A per-phase demand in kW and kvar, in the spec's words: not a total demand, phase X
  carrying \<open>Value1 = P_X\<close> and \<open>Value2 = Q_X\<close>, of load value type KW_KVAR.
\<close>

definition per_phase_demand :: "rat \<Rightarrow> rat \<Rightarrow> rat \<Rightarrow> rat \<Rightarrow> rat \<Rightarrow> rat \<Rightarrow> meter" where
  "per_phase_demand pa qa pb qb pc qc =
     \<lparr>IsTotalDemand = Some False,
      DemandA = Some \<lparr>Value1 = Some pa, Value2 = Some qa\<rparr>,
      DemandB = Some \<lparr>Value1 = Some pb, Value2 = Some qb\<rparr>,
      DemandC = Some \<lparr>Value1 = Some pc, Value2 = Some qc\<rparr>,
      LoadValueType = Some (PEnum ''LoadValueType.KW_KVAR'')\<rparr>"


text \<open>A sample input of load_allocation, for the simulator of the sample session.\<close>

definition demo_values :: "string \<Rightarrow> rat option" where
  "demo_values = map_of
     [(''P_A'', 1200), (''Q_A'', 300), (''P_B'', 1100), (''Q_B'', 280), (''P_C'', 1250),
      (''Q_C'', 310), (''VMAG_A'', 7200), (''VMAG_B'', 7200), (''VMAG_C'', 7200)]"

definition demo_allocation_trace :: "call list" where
  "demo_allocation_trace =
     [LoadAllocation, Meter, LoadValue, LoadValue, LoadValue, ListNetworks,
      SetDemand (PStr ''BU0001'') (per_phase_demand 1200 300 1100 280 1250 310),
      SetValueTopo (36 / 5) (OperatingVoltage 1) (PStr ''BU0001''),
      SetValueTopo (36 / 5) (OperatingVoltage 2) (PStr ''BU0001''),
      SetValueTopo (36 / 5) (OperatingVoltage 3) (PStr ''BU0001''),
      LoadAllocationRun [PStr ''BU0001'']]"

subsection \<open>The calls that add one load and one photovoltaic device\<close>









subsection \<open>What a result frame keeps of its input\<close>

definition col_names :: "'l frame \<Rightarrow> string list" where
  "col_names F = map fst (cols F)"

definition column :: "'l frame \<Rightarrow> string \<Rightarrow> pyval list option" where
  "column F c = map_of (cols F) c"

text \<open>
  \<open>kept R S F F'\<close>: the frame \<open>F'\<close> has the rows of \<open>F\<close> in the same order, every column
  of \<open>F\<close> with a name outside \<open>R\<close> unchanged and in the same place, and the added columns \<open>S\<close>.
\<close>

definition kept :: "string set \<Rightarrow> string set \<Rightarrow> 'l frame \<Rightarrow> 'l frame \<Rightarrow> bool" where
  "kept R S F F' \<longleftrightarrow>
     index F' = index F \<and>
     (\<forall>c. c \<notin> R \<longrightarrow> column F' c = column F c) \<and>
     filter (\<lambda>c. c \<notin> R) (col_names F') = filter (\<lambda>c. c \<notin> R) (col_names F) \<and>
     set (col_names F') = set (col_names F) \<union> S"

text \<open>
  \<open>copy_ok R S w0 a w\<close>: since \<open>w0\<close> one frame was added to the store, the frames and files of
  \<open>w0\<close> are as they were, and the new frame keeps frame \<open>a\<close> in the sense above.
\<close>

definition copy_ok :: "string set \<Rightarrow> string set \<Rightarrow> 'l world \<Rightarrow> nat \<Rightarrow> 'l world \<Rightarrow> bool" where
  "copy_ok R S w0 a w \<longleftrightarrow>
     files w = files w0 \<and>
     length (frames w) = Suc (length (frames w0)) \<and>
     take (length (frames w0)) (frames w) = frames w0 \<and>
     kept R S (frames w0 ! a) (frames w ! length (frames w0))"

subsection \<open>The result columns of each function\<close>

definition voltage_columns :: "string list" where
  "voltage_columns = [''voltage_A'', ''voltage_B'', ''voltage_C'']"

definition overload_columns :: "string list" where
  "overload_columns = [''overload_A'', ''overload_B'', ''overload_C'']"

definition distance_columns :: "string list" where
  "distance_columns = [''distance'']"

definition coordinate_columns :: "string list" where
  "coordinate_columns = [''latitude'', ''longitude'', ''section_id'']"

section \<open>Reasoning about runs\<close>

subsection \<open>Rules of the calculus\<close>

lemma wp_ret [simp]: "wp (ret x) Q w = Q (Inr x) w"
  by (simp add: wp_def ret_def)

lemma wp_raise [simp]: "wp (raise e) Q w = Q (Inl e) w"
  by (simp add: wp_def raise_def)

lemma wp_lift [simp]: "wp (lift r) Q w = Q r w"
  by (simp add: wp_def lift_def)

lemma wp_bnd [simp]:
  "wp (bnd m f) Q w = wp m (\<lambda>r w'. case r of Inl e \<Rightarrow> Q (Inl e) w' | Inr x \<Rightarrow> wp (f x) Q w') w"
  by (simp add: wp_def bnd_def split: prod.splits sum.splits)

lemma wp_vcall [simp]:
  "wp (vcall V c) Q w = Q (reply_sum (V (trace w) c)) (w\<lparr>trace := trace w @ [c]\<rparr>)"
  by (simp add: wp_def vcall_def reply_sum_def split: reply.splits)

lemma wp_getitem [simp]: "wp (getitem d k) Q w = Q (item_sum d k) w"
  by (simp add: wp_def getitem_def item_sum_def ret_def raise_def split: option.splits)

lemma wp_if [simp]: "wp (if b then m else n) Q w = (if b then wp m Q w else wp n Q w)"
  by simp

lemma wp_mono: "wp m Q w \<Longrightarrow> (\<And>r w'. Q r w' \<Longrightarrow> Q' r w') \<Longrightarrow> wp m Q' w"
  by (simp add: wp_def)

lemma wp_run: "m w = (r, w') \<Longrightarrow> wp m Q w \<Longrightarrow> Q r w'"
  by (simp add: wp_def)

lemma wp_for_each:
  assumes "I w" and "\<And>x w. x \<in> set xs \<Longrightarrow> I w \<Longrightarrow> wp (body x) (\<lambda>r w'. I w') w"
  shows "wp (for_each xs body) (\<lambda>r w'. I w') w"
  using assms
proof (induction xs arbitrary: w)
  case Nil
  then show ?case by simp
next
  case (Cons x xs)
  have step: "wp (body x) (\<lambda>r w'. I w') w"
    using Cons.prems by simp
  have rest: "wp (for_each xs body) (\<lambda>r w'. I w') w'" if "I w'" for w'
    using that Cons.prems(2) by (intro Cons.IH) simp_all
  show ?case
    by (simp, rule wp_mono [OF step]) (simp add: rest split: sum.splits)
qed

lemma trace_update_eq [simp]:
  "(w\<lparr>trace := a\<rparr> = w\<lparr>trace := b\<rparr>) = (a = b)"
  by (metis world.select_convs(1) world.surjective world.update_convs(1))

lemma grown_refl [simp]: "grown P w w"
  by (auto simp: grown_def intro: exI [of _ "[]"])

lemma grown_calls:
  "grown P w0 w \<Longrightarrow> list_all P cs \<Longrightarrow> grown P w0 (w\<lparr>trace := trace w @ cs\<rparr>)"
  by (auto simp: grown_def)

lemma grown_trans: "grown P w0 w1 \<Longrightarrow> grown P w1 w2 \<Longrightarrow> grown P w0 w2"
  by (auto simp: grown_def)

subsection \<open>The output extraction\<close>

lemma length_replies [simp]: "length (replies V d h ps) = length ps"
  by (induction ps arbitrary: h) auto

lemma nth_replies:
  "i < length ps \<Longrightarrow>
   replies V d h ps ! i = or_default d (V (h @ map qcall (take i ps)) (qcall (ps ! i)))"
proof (induction ps arbitrary: h i)
  case Nil
  then show ?case by simp
next
  case (Cons p ps)
  show ?case
  proof (cases i)
    case 0
    then show ?thesis by simp
  next
    case (Suc k)
    with Cons.prems have "k < length ps" by simp
    from Cons.IH [OF this, of "h @ [qcall p]"] Suc show ?thesis by simp
  qed
qed

lemma output_value_eq:
  "output_value V d n c w =
     (Inr (or_default d (V (trace w) (QueryInfoNode c n))),
      w\<lparr>trace := trace w @ [QueryInfoNode c n]\<rparr>)"
  by (simp add: output_value_def vcall_def or_default_def split: reply.splits)

lemma output_pairs_eq:
  "output_pairs V d ps w =
     (Inr (replies V d (trace w) ps), w\<lparr>trace := trace w @ map qcall ps\<rparr>)"
proof (induction ps arbitrary: w)
  case Nil
  show ?case by (simp add: ret_def)
next
  case (Cons p ps)
  obtain n c where p: "p = (n, c)" by (cases p)
  show ?case
    by (simp add: p bnd_def output_value_eq Cons.IH ret_def qcall_def)
qed

lemma output_values_eq:
  "output_values V nodes names d w =
     (Inr (replies V d (trace w) (zip nodes names)),
      w\<lparr>trace := trace w @ map qcall (zip nodes names)\<rparr>)"
  by (simp add: output_values_def output_pairs_eq)

subsection \<open>The steps of fmu_wrapper\<close>

lemma set_voltages_run:
  "wp (set_voltages V vs)
     (\<lambda>r w'. \<exists>volt. w' = w\<lparr>trace := trace w @ volt\<rparr> \<and> list_all is_voltage_call volt \<and>
        (\<forall>c\<in>set volt. is_topo_write c \<longrightarrow> kilovolt_write V vs (trace w) c) \<and>
        (\<forall>x. r = Inr x \<longrightarrow> voltage_writes V vs (trace w) volt)) w"
  unfolding set_voltages_def voltage_writes_def kilovolt_write_def
  by (auto simp: reply_sum_def item_sum_def split: reply.splits option.splits sum.splits)

lemma add_load_grown:
  "grown is_load_call w0 w \<Longrightarrow> wp (add_load V i ld) (\<lambda>r w'. grown is_load_call w0 w') w"
  unfolding add_load_def
  apply (simp split: sum.splits)
  apply (intro conjI impI allI grown_calls wp_for_each)
  apply (simp_all split: sum.splits)
  apply (auto intro!: grown_calls)
  done

lemma add_loads_grown: "wp (add_loads V loads) (\<lambda>r w'. grown is_load_call w w') w"
proof -
  have "wp (for_each (enumerate_from0 loads) (\<lambda>(i, ld). add_load V i ld))
          (\<lambda>r w'. grown is_load_call w w') w"
    by (rule wp_for_each) (auto intro: add_load_grown)
  then show ?thesis
    unfolding add_loads_def by (simp, elim wp_mono) (simp split: sum.splits)
qed

lemma device_SetValue_grown:
  "grown is_pv_call w0 w \<Longrightarrow> wp (device_SetValue V dev v k) (\<lambda>r w'. grown is_pv_call w0 w') w"
  by (cases dev) (auto intro: grown_calls)

lemma add_pv_grown:
  "grown is_pv_call w0 w \<Longrightarrow> wp (add_pv V i p) (\<lambda>r w'. grown is_pv_call w0 w') w"
  unfolding add_pv_def
  apply (simp split: sum.splits)
  apply (auto simp: reply_sum_def split: sum.splits reply.splits
      intro!: grown_calls wp_mono [OF device_SetValue_grown])
  done

lemma add_pvs_grown: "wp (add_pvs V pvs) (\<lambda>r w'. grown is_pv_call w w') w"
proof -
  have "wp (for_each (enumerate_from0 pvs) (\<lambda>(i, p). add_pv V i p))
          (\<lambda>r w'. grown is_pv_call w w') w"
    by (rule wp_for_each) (auto intro: add_pv_grown)
  then show ?thesis
    unfolding add_pvs_def by (simp, elim wp_mono) (simp split: sum.splits)
qed

lemma bnd_cases:
  assumes "bnd m f w = (r, w')"
  obtains (fail) e where "m w = (Inl e, w')" and "r = Inl e"
        | (ok) x w1 where "m w = (Inr x, w1)" and "f x w1 = (r, w')"
  using assms by (auto simp: bnd_def split: prod.splits sum.splits)

lemma vcall_cases:
  assumes "vcall V c w = (r, w')"
  obtains "w' = w\<lparr>trace := trace w @ [c]\<rparr>" and "r = reply_sum (V (trace w) c)"
  using assms by (auto simp: vcall_def reply_sum_def split: reply.splits)

lemma self_grown_eq [simp]: "(w = w\<lparr>trace := trace w @ evs\<rparr>) = (evs = [])"
proof
  assume "w = w\<lparr>trace := trace w @ evs\<rparr>"
  then have "trace w = trace (w\<lparr>trace := trace w @ evs\<rparr>)" by simp
  then show "evs = []" by simp
next
  assume "evs = []"
  then show "w = w\<lparr>trace := trace w @ evs\<rparr>" by simp
qed

lemma fmu_wrapper_run:
  assumes run: "fmu_wrapper V f vn vv ls lp lv ps pp pvv names nodes wr w = (r, w')"
  shows "\<exists>volt lds pvs flow outq.
     w' = w\<lparr>trace := trace w @ Open f # volt @ lds @ pvs @ flow @ outq\<rparr> \<and>
     list_all is_voltage_call volt \<and> list_all is_load_call lds \<and> list_all is_pv_call pvs \<and>
     (ls = [] \<longrightarrow> lds = []) \<and> (ps = [] \<longrightarrow> pvs = []) \<and>
     (flow = [] \<or> flow = [LoadFlow] \<or> flow = [LoadFlow, LoadFlowRun]) \<and>
     (case r of
        Inl e \<Rightarrow> outq = []
      | Inr out \<Rightarrow>
          flow = [LoadFlow, LoadFlowRun] \<and> outq = map qcall (zip nodes names) \<and>
          out = replies V (PInt 0) (trace w @ Open f # volt @ lds @ pvs @ flow) (zip nodes names) \<and>
          voltage_writes V (input_voltages vn vv) (trace w @ [Open f]) volt) \<and>
     (\<forall>c\<in>set volt. is_topo_write c \<longrightarrow>
        kilovolt_write V (input_voltages vn vv) (trace w @ [Open f]) c)"
proof -
  let ?vs = "input_voltages vn vv"
  let ?loads = "if length ls > 0 then Some (input_loads ls lp lv) else None"
  let ?pvs = "if length ps > 0 then Some (input_pvs ps pp pvv) else None"
  let ?L = "if nonempty_list ?loads then add_loads V (the ?loads) else ret True"
  let ?P = "if nonempty_list ?pvs then add_pvs V (the ?pvs) else ret True"
  let ?W = "if wr \<in> set [''True'', ''true'', ''1''] then write_results f else ret True"
  let ?w1 = "w\<lparr>trace := trace w @ [Open f]\<rparr>"
  note run' = run [unfolded fmu_wrapper_def Let_def]
  from run' show ?thesis
  proof (cases rule: bnd_cases)
    case (fail e)
    then have "w' = ?w1" by (auto elim: vcall_cases)
    with fail show ?thesis
      by (intro exI [of _ "[]"]) simp
  next
    case (ok x0 w1)
    then have w1: "w1 = ?w1" by (auto elim: vcall_cases)
    from ok(2) show ?thesis
    proof (cases rule: bnd_cases)
      case (fail e)
      from wp_run [OF fail(1) set_voltages_run]
      obtain volt where "w' = w1\<lparr>trace := trace w1 @ volt\<rparr>" "list_all is_voltage_call volt"
        "\<forall>c\<in>set volt. is_topo_write c \<longrightarrow> kilovolt_write V ?vs (trace w1) c"
        by blast
      then have "w' = w\<lparr>trace := trace w @ Open f # volt\<rparr>" "list_all is_voltage_call volt"
        "\<forall>c\<in>set volt. is_topo_write c \<longrightarrow> kilovolt_write V ?vs (trace w @ [Open f]) c"
        by (simp_all add: w1)
      with fail(2) show ?thesis
        by (intro exI [of _ volt] exI [of _ "[]"]) simp
    next
      case (ok x1 w2)
      from wp_run [OF ok(1) set_voltages_run]
      obtain volt where volt:
        "w2 = w1\<lparr>trace := trace w1 @ volt\<rparr>" "list_all is_voltage_call volt"
        "\<forall>c\<in>set volt. is_topo_write c \<longrightarrow> kilovolt_write V ?vs (trace w1) c"
        "voltage_writes V ?vs (trace w1) volt"
        by blast
      have vok: "list_all is_voltage_call volt"
        by (rule volt(2))
      have w2: "w2 = w\<lparr>trace := trace w @ Open f # volt\<rparr>"
        using volt(1) by (simp add: w1)
      have success: "voltage_writes V ?vs (trace w @ [Open f]) volt"
        using volt(4) by (simp add: w1)
      have kv: "\<forall>c\<in>set volt. is_topo_write c \<longrightarrow> kilovolt_write V ?vs (trace w @ [Open f]) c"
        using volt(3) by (simp add: w1)
      have L: "wp ?L (\<lambda>r w'. \<exists>lds. w' = w2\<lparr>trace := trace w2 @ lds\<rparr> \<and> list_all is_load_call lds
                 \<and> (ls = [] \<longrightarrow> lds = [])) w2"
      proof (cases "ls \<noteq> [] \<and> input_loads ls lp lv \<noteq> []")
        case True
        then have eq: "?L = add_loads V (input_loads ls lp lv)"
          by (simp add: nonempty_list_def)
        show ?thesis
          unfolding eq by (rule wp_mono [OF add_loads_grown]) (use True in \<open>auto simp: grown_def\<close>)
      next
        case False
        then have eq: "?L = ret True"
          by (auto simp: nonempty_list_def)
        show ?thesis
          unfolding eq by simp
      qed
      have P: "wp ?P (\<lambda>r w'. \<exists>pvs. w' = w\<lparr>trace := trace w @ pvs\<rparr> \<and> list_all is_pv_call pvs
                 \<and> (ps = [] \<longrightarrow> pvs = [])) w" for w :: "'a world"
      proof (cases "ps \<noteq> [] \<and> input_pvs ps pp pvv \<noteq> []")
        case True
        then have eq: "?P = add_pvs V (input_pvs ps pp pvv)"
          by (simp add: nonempty_list_def)
        show ?thesis
          unfolding eq by (rule wp_mono [OF add_pvs_grown]) (use True in \<open>auto simp: grown_def\<close>)
      next
        case False
        then have eq: "?P = ret True"
          by (auto simp: nonempty_list_def)
        show ?thesis
          unfolding eq by simp
      qed
      from ok(2) show ?thesis
      proof (cases rule: bnd_cases)
        case (fail e)
        from wp_run [OF fail(1) L] obtain lds where lds:
          "w' = w2\<lparr>trace := trace w2 @ lds\<rparr>" "list_all is_load_call lds" "ls = [] \<longrightarrow> lds = []"
          by auto
        have "w' = w\<lparr>trace := trace w @ Open f # volt @ lds\<rparr>"
          using lds(1) by (simp add: w2)
        with fail(2) vok kv lds(2,3) show ?thesis
          by (intro exI [of _ volt] exI [of _ lds] exI [of _ "[]"]) simp
      next
        case (ok x2 w3)
        from wp_run [OF ok(1) L] obtain lds where lds:
          "w3 = w2\<lparr>trace := trace w2 @ lds\<rparr>" "list_all is_load_call lds" "ls = [] \<longrightarrow> lds = []"
          by auto
        have w3: "w3 = w\<lparr>trace := trace w @ Open f # volt @ lds\<rparr>"
          using lds(1) by (simp add: w2)
        from ok(2) show ?thesis
        proof (cases rule: bnd_cases)
          case (fail e)
          from wp_run [OF fail(1) P] obtain pvs where pvs:
            "w' = w3\<lparr>trace := trace w3 @ pvs\<rparr>" "list_all is_pv_call pvs" "ps = [] \<longrightarrow> pvs = []"
            by auto
          have "w' = w\<lparr>trace := trace w @ Open f # volt @ lds @ pvs\<rparr>"
            using pvs(1) by (simp add: w3)
          with fail(2) vok kv lds(2,3) pvs(2,3) show ?thesis
            by (intro exI [of _ volt] exI [of _ lds] exI [of _ pvs] exI [of _ "[]"]) simp
        next
          case (ok x3 w4)
          from wp_run [OF ok(1) P] obtain pvs where pvs:
            "w4 = w3\<lparr>trace := trace w3 @ pvs\<rparr>" "list_all is_pv_call pvs" "ps = [] \<longrightarrow> pvs = []"
            by auto
          have w4: "w4 = w\<lparr>trace := trace w @ Open f # volt @ lds @ pvs\<rparr>"
            using pvs(1) by (simp add: w3)
          from ok(2) show ?thesis
          proof (cases rule: bnd_cases)
            case (fail e)
            then have "w' = w4\<lparr>trace := trace w4 @ [LoadFlow]\<rparr>" by (auto elim: vcall_cases)
            then have "w' = w\<lparr>trace := trace w @ Open f # volt @ lds @ pvs @ [LoadFlow]\<rparr>"
              by (simp add: w4)
            with fail(2) vok kv lds(2,3) pvs(2,3) show ?thesis
              by (intro exI [of _ volt] exI [of _ lds] exI [of _ pvs] exI [of _ "[LoadFlow]"]
                    exI [of _ "[]"]) simp
          next
            case (ok x4 w5)
            then have "w5 = w4\<lparr>trace := trace w4 @ [LoadFlow]\<rparr>" by (auto elim: vcall_cases)
            then have w5: "w5 = w\<lparr>trace := trace w @ Open f # volt @ lds @ pvs @ [LoadFlow]\<rparr>"
              by (simp add: w4)
            from ok(2) show ?thesis
            proof (cases rule: bnd_cases)
              case (fail e)
              then have "w' = w5\<lparr>trace := trace w5 @ [LoadFlowRun]\<rparr>" by (auto elim: vcall_cases)
              then have "w' = w\<lparr>trace := trace w @ Open f # volt @ lds @ pvs @ [LoadFlow, LoadFlowRun]\<rparr>"
                by (simp add: w5)
              with fail(2) vok kv lds(2,3) pvs(2,3) show ?thesis
                by (intro exI [of _ volt] exI [of _ lds] exI [of _ pvs]
                      exI [of _ "[LoadFlow, LoadFlowRun]"] exI [of _ "[]"]) simp
            next
              case (ok x5 w6)
              then have "w6 = w5\<lparr>trace := trace w5 @ [LoadFlowRun]\<rparr>"
                by (auto elim: vcall_cases)
              then have w6: "w6 = w\<lparr>trace := trace w @ Open f # volt @ lds @ pvs @ [LoadFlow, LoadFlowRun]\<rparr>"
                by (simp add: w5)
              have W: "?W w6 = (Inr True, w6)"
                by (simp add: write_results_def ret_def)
              from ok(2) W have out: "output_values V nodes names (PInt 0) w6 = (r, w')"
                by (auto elim!: bnd_cases)
              have tr6: "trace w6 = trace w @ Open f # volt @ lds @ pvs @ [LoadFlow, LoadFlowRun]"
                by (simp add: w6)
              from out [unfolded output_values_eq tr6]
              have r: "r = Inr (replies V (PInt 0)
                           (trace w @ Open f # volt @ lds @ pvs @ [LoadFlow, LoadFlowRun])
                           (zip nodes names))"
                and "w' = w6\<lparr>trace := (trace w @ Open f # volt @ lds @ pvs @ [LoadFlow, LoadFlowRun])
                         @ map qcall (zip nodes names)\<rparr>"
                by simp_all
              then have w': "w' = w\<lparr>trace := trace w @ Open f # volt @ lds @ pvs
                         @ [LoadFlow, LoadFlowRun] @ map qcall (zip nodes names)\<rparr>"
                by (simp add: w6)
              from r w' vok kv lds(2,3) pvs(2,3) success show ?thesis
                by (intro exI [of _ volt] exI [of _ lds] exI [of _ pvs]
                      exI [of _ "[LoadFlow, LoadFlowRun]"] exI [of _ "map qcall (zip nodes names)"])
                   simp
            qed
          qed
        qed
      qed
    qed
  qed
qed

subsection \<open>The sample session, evaluated\<close>

lemma str_nat_digits [simp]:
  "str_nat 0 = ''0''" "str_nat 1 = ''1''" "str_nat 2 = ''2''" "str_nat 3 = ''3''"
  by code_simp+

lemma upt_small [simp]:
  "[0..<1] = [0]" "[0..<2] = [0, 1]" "[0..<3] = [0, 1, 2]"
  by code_simp+

lemma panels_100 [simp]: "panels 100 = 70"
  by code_simp

lemma demo_voltages [simp]:
  "input_voltages demo_voltage_names demo_voltage_values ''VMAG_A'' = Some 2520"
  "input_voltages demo_voltage_names demo_voltage_values ''VMAG_B'' = Some 2520"
  "input_voltages demo_voltage_names demo_voltage_values ''VMAG_C'' = Some 2520"
  by (simp_all add: input_voltages_def demo_voltage_names_def demo_voltage_values_def)

lemma wp_eq: "wp m (\<lambda>r w'. r = R \<and> w' = W) w \<Longrightarrow> m w = (R, W)"
  by (simp add: wp_def prod_eq_iff)

lemma demo_run_eq:
  "demo_run =
     (Inr [PStr ''33.2'', PInt 0, PInt 0, PStr ''33.2''],
      \<lparr>trace = demo_trace, files = [], frames = []\<rparr>)"
  unfolding demo_run_def
  apply (rule wp_eq)
  apply (simp add: fmu_wrapper_def Let_def set_voltages_def add_loads_def add_pvs_def
      add_load_def add_pv_def input_loads_def input_pvs_def enumerate_from0_def
      nonempty_list_def write_results_def reply_sum_def item_sum_def demo_vendor_def
      truediv_len_def demo_world_def)
  apply (simp add: wp_def output_values_eq demo_output_names_def demo_output_nodes_def
      qcall_def or_default_def demo_vendor_def demo_trace_def numeral_2_eq_2)
  done

subsection \<open>Kinds of calls exclude one another\<close>

lemma voltage_call_kind:
  "is_voltage_call c \<Longrightarrow> \<not> is_node_query c \<and> \<not> is_add_device c \<and> c \<noteq> LoadFlowRun"
  by (cases c) auto

lemma load_call_kind: "is_load_call c \<Longrightarrow> \<not> is_node_query c \<and> \<not> is_topo_write c"
  by (cases c) auto

lemma pv_call_kind: "is_pv_call c \<Longrightarrow> \<not> is_node_query c \<and> \<not> is_topo_write c"
  by (cases c) auto

lemma node_query_qcall [simp]: "is_node_query (qcall p)"
  by (simp add: qcall_def)

lemma split_before:
  assumes "A @ B = pre @ c # post" and "\<forall>x\<in>set A. \<not> P x" and "P c"
  shows "set A \<subseteq> set pre \<and> c \<in> set B"
proof -
  from assms(1) obtain us where
    "(A = pre @ us \<and> us @ B = c # post) \<or> (A @ us = pre \<and> B = us @ c # post)"
    by (auto simp: append_eq_append_conv2)
  then show ?thesis
  proof
    assume a: "A = pre @ us \<and> us @ B = c # post"
    show ?thesis
    proof (cases us)
      case Nil
      with a show ?thesis by auto
    next
      case (Cons u us')
      with a have "c \<in> set A" by auto
      with assms(2,3) show ?thesis by blast
    qed
  next
    assume "A @ us = pre \<and> B = us @ c # post"
    then show ?thesis by auto
  qed
qed

subsection \<open>Claims about fmu_wrapper\<close>

text \<open>
  C10. fmu_wrapper returns a list as long as the shorter of \<^verbatim>\<open>output_nodes\<close> and
  \<^verbatim>\<open>output_names\<close>; its i-th element is the reply to the query for the i-th pair, or the
  default 0, in input order. The output extraction itself never raises and ignores the
  surplus entries of the longer list: a call of fmu_wrapper that raises has issued no
  output query at all.
\<close>

theorem fmu_wrapper_output_list:
  fixes w :: "'l world"
  shows
    "(\<exists>out w'. output_values V nodes names d w = (Inr out, w') \<and>
        length out = min (length nodes) (length names) \<and>
        (\<forall>i<length out. out ! i =
           or_default d (V (trace w @ map qcall (take i (zip nodes names)))
                           (QueryInfoNode (names ! i) (nodes ! i))))) \<and>
     (\<forall>r w'. fmu_wrapper V f vn vv ls lp lv ps pp pvv names nodes wr w = (r, w') \<longrightarrow>
        (case r of
           Inl e \<Rightarrow> \<forall>c\<in>set (drop (length (trace w)) (trace w')). \<not> is_node_query c
         | Inr out \<Rightarrow>
             length out = min (length nodes) (length names) \<and>
             (\<exists>h. trace w' = h @ map qcall (zip nodes names) \<and>
                (\<forall>i<length out. out ! i =
                   or_default (PInt 0) (V (h @ map qcall (take i (zip nodes names)))
                                          (QueryInfoNode (names ! i) (nodes ! i)))))))"
proof (intro conjI allI impI)
  show "\<exists>out w'. output_values V nodes names d w = (Inr out, w') \<and>
        length out = min (length nodes) (length names) \<and>
        (\<forall>i<length out. out ! i =
           or_default d (V (trace w @ map qcall (take i (zip nodes names)))
                           (QueryInfoNode (names ! i) (nodes ! i))))"
    by (simp add: output_values_eq nth_replies) (simp add: qcall_def)
next
  fix r w'
  assume run: "fmu_wrapper V f vn vv ls lp lv ps pp pvv names nodes wr w = (r, w')"
  from fmu_wrapper_run [OF run] obtain volt lds pvs flow outq where
    w': "w' = w\<lparr>trace := trace w @ Open f # volt @ lds @ pvs @ flow @ outq\<rparr>"
    and kinds: "list_all is_voltage_call volt" "list_all is_load_call lds"
      "list_all is_pv_call pvs"
    and flow: "flow = [] \<or> flow = [LoadFlow] \<or> flow = [LoadFlow, LoadFlowRun]"
    and r: "case r of
        Inl e \<Rightarrow> outq = []
      | Inr out \<Rightarrow>
          flow = [LoadFlow, LoadFlowRun] \<and> outq = map qcall (zip nodes names) \<and>
          out = replies V (PInt 0) (trace w @ Open f # volt @ lds @ pvs @ flow) (zip nodes names) \<and>
          voltage_writes V (input_voltages vn vv) (trace w @ [Open f]) volt"
    by (elim exE conjE) (rule that)
  show "case r of
           Inl e \<Rightarrow> \<forall>c\<in>set (drop (length (trace w)) (trace w')). \<not> is_node_query c
         | Inr out \<Rightarrow>
             length out = min (length nodes) (length names) \<and>
             (\<exists>h. trace w' = h @ map qcall (zip nodes names) \<and>
                (\<forall>i<length out. out ! i =
                   or_default (PInt 0) (V (h @ map qcall (take i (zip nodes names)))
                                          (QueryInfoNode (names ! i) (nodes ! i)))))"
  proof (cases r)
    case (Inl e)
    with r have "outq = []" by simp
    then have "drop (length (trace w)) (trace w') = Open f # volt @ lds @ pvs @ flow"
      by (simp add: w')
    moreover have "\<forall>c\<in>set (Open f # volt @ lds @ pvs @ flow). \<not> is_node_query c"
      using kinds flow
      by (auto simp: list_all_iff dest: voltage_call_kind load_call_kind pv_call_kind)
    ultimately show ?thesis using Inl by simp
  next
    case (Inr out)
    let ?h = "trace w @ Open f # volt @ lds @ pvs @ flow"
    from r Inr have out: "out = replies V (PInt 0) ?h (zip nodes names)"
      and outq: "outq = map qcall (zip nodes names)" by simp_all
    have A: "trace w' = ?h @ map qcall (zip nodes names)"
      by (simp add: w' outq)
    have B: "\<forall>i<length out. out ! i =
        or_default (PInt 0) (V (?h @ map qcall (take i (zip nodes names)))
                               (QueryInfoNode (names ! i) (nodes ! i)))"
      unfolding out by (simp add: nth_replies) (simp add: qcall_def)
    have C: "length out = min (length nodes) (length names)"
      by (simp add: out)
    show ?thesis
      by (simp only: Inr sum.case) (intro conjI exI [of _ ?h] A B C)
  qed
qed

theorem fmu_wrapper_output_list_witness:
  "fst demo_run = Inr [PStr ''33.2'', PInt 0, PInt 0, PStr ''33.2''] \<and>
   length [PStr ''33.2'', PInt 0, PInt 0, PStr ''33.2''] =
     min (length demo_output_nodes) (length demo_output_names) \<and>
   demo_vendor (take 18 demo_trace) (QueryInfoNode ''KWB'' (PStr ''800036819'')) = Raises \<and>
   [PStr ''33.2'', PInt 0, PInt 0, PStr ''33.2''] ! 1 =
     or_default (PInt 0) (demo_vendor (take 18 demo_trace) (QueryInfoNode ''KWB'' (PStr ''800036819'')))"
proof -
  have run: "fmu_wrapper demo_vendor ''BU0001.sxst'' demo_voltage_names demo_voltage_values
     [''800033503''] [''KW''] [100] [''800033504''] [''KW''] [100]
     demo_output_names demo_output_nodes ''False'' demo_world =
     (Inr [PStr ''33.2'', PInt 0, PInt 0, PStr ''33.2''],
      \<lparr>trace = demo_trace, files = [], frames = []\<rparr>)"
    using demo_run_eq by (simp add: demo_run_def)
  note out = fmu_wrapper_output_list [of demo_vendor demo_output_nodes demo_output_names "PInt 0"
      demo_world "''BU0001.sxst''" demo_voltage_names demo_voltage_values
      "[''800033503'']" "[''KW'']" "[100]" "[''800033504'']" "[''KW'']" "[100]" "''False''",
      THEN conjunct2, rule_format, OF run]
  have "length [PStr ''33.2'', PInt 0, PInt 0, PStr ''33.2''] =
     min (length demo_output_nodes) (length demo_output_names)"
    using out by (simp only: sum.case)
  then show ?thesis
    by (simp add: demo_run_eq demo_vendor_def or_default_def)
qed

text \<open>
  C2. fmu_wrapper writes nothing to the file system, whatever \<^verbatim>\<open>write_result\<close> is: the
  files and the frames of the world are as before, the whole outcome (the returned list or
  the exception, and the calls issued) is the same for any two values of
  \<^verbatim>\<open>write_result\<close>, and \<^verbatim>\<open>_write_results\<close> returns True and leaves the world as it is.
\<close>

theorem fmu_wrapper_persists_nothing:
  "files (snd (fmu_wrapper V f vn vv ls lp lv ps pp pvv names nodes wr w)) = files w \<and>
   frames (snd (fmu_wrapper V f vn vv ls lp lv ps pp pvv names nodes wr w)) = frames w \<and>
   fmu_wrapper V f vn vv ls lp lv ps pp pvv names nodes wr w =
     fmu_wrapper V f vn vv ls lp lv ps pp pvv names nodes wr2 w \<and>
   write_results f w = (Inr True, w)"
proof (intro conjI)
  obtain r w' where run: "fmu_wrapper V f vn vv ls lp lv ps pp pvv names nodes wr w = (r, w')"
    by (cases "fmu_wrapper V f vn vv ls lp lv ps pp pvv names nodes wr w")
  from fmu_wrapper_run [OF run] obtain evs where "w' = w\<lparr>trace := trace w @ evs\<rparr>"
    by blast
  with run show "files (snd (fmu_wrapper V f vn vv ls lp lv ps pp pvv names nodes wr w)) = files w"
    and "frames (snd (fmu_wrapper V f vn vv ls lp lv ps pp pvv names nodes wr w)) = frames w"
    by simp_all
next
  have same: "(if b then write_results f else ret True) = (ret True :: ('a, bool) run)" for b
    by (simp add: write_results_def)
  show "fmu_wrapper V f vn vv ls lp lv ps pp pvv names nodes wr w =
     fmu_wrapper V f vn vv ls lp lv ps pp pvv names nodes wr2 w"
    unfolding fmu_wrapper_def Let_def same ..
next
  show "write_results f w = (Inr True, w)"
    by (simp add: write_results_def ret_def)
qed

text \<open>
  C3. The calls of fmu_wrapper come in one fixed order: the model is opened; the networks
  are listed and the source voltages written; load devices are added (none when
  \<^verbatim>\<open>load_sections\<close> is empty); photovoltaic devices are added (none when \<^verbatim>\<open>pv_sections\<close>
  is empty); the load flow is created and run; the output nodes are queried. A call that
  raises stops the sequence where it stands. In particular a node query is always
  preceded by the run of the load flow, and the addition of a device by the opening of
  the model.
\<close>

theorem fmu_wrapper_call_sequence:
  assumes run: "fmu_wrapper V f vn vv ls lp lv ps pp pvv names nodes wr w = (r, w')"
  shows "\<exists>volt lds pvs flow outq.
     trace w' = trace w @ Open f # volt @ lds @ pvs @ flow @ outq \<and>
     list_all is_voltage_call volt \<and> list_all is_load_call lds \<and> list_all is_pv_call pvs \<and>
     (ls = [] \<longrightarrow> lds = []) \<and> (ps = [] \<longrightarrow> pvs = []) \<and>
     (flow = [] \<or> flow = [LoadFlow] \<or> flow = [LoadFlow, LoadFlowRun]) \<and>
     (outq = [] \<or> flow = [LoadFlow, LoadFlowRun] \<and> outq = map qcall (zip nodes names)) \<and>
     ((\<exists>out. r = Inr out) \<longrightarrow>
        voltage_writes V (input_voltages vn vv) (trace w @ [Open f]) volt \<and>
        flow = [LoadFlow, LoadFlowRun] \<and> outq = map qcall (zip nodes names)) \<and>
     (\<forall>pre c post. Open f # volt @ lds @ pvs @ flow @ outq = pre @ c # post \<and> is_node_query c
        \<longrightarrow> LoadFlowRun \<in> set pre) \<and>
     (\<forall>pre c post. Open f # volt @ lds @ pvs @ flow @ outq = pre @ c # post \<and> is_add_device c
        \<longrightarrow> Open f \<in> set pre)"
proof -
  from fmu_wrapper_run [OF run] obtain volt lds pvs flow outq where
    w': "w' = w\<lparr>trace := trace w @ Open f # volt @ lds @ pvs @ flow @ outq\<rparr>"
    and kinds: "list_all is_voltage_call volt" "list_all is_load_call lds"
      "list_all is_pv_call pvs"
    and empty: "ls = [] \<longrightarrow> lds = []" "ps = [] \<longrightarrow> pvs = []"
    and flow: "flow = [] \<or> flow = [LoadFlow] \<or> flow = [LoadFlow, LoadFlowRun]"
    and r: "case r of
        Inl e \<Rightarrow> outq = []
      | Inr out \<Rightarrow>
          flow = [LoadFlow, LoadFlowRun] \<and> outq = map qcall (zip nodes names) \<and>
          out = replies V (PInt 0) (trace w @ Open f # volt @ lds @ pvs @ flow) (zip nodes names) \<and>
          voltage_writes V (input_voltages vn vv) (trace w @ [Open f]) volt"
    by (elim exE conjE) (rule that)
  have tr: "trace w' = trace w @ Open f # volt @ lds @ pvs @ flow @ outq"
    by (simp add: w')
  have outq: "outq = [] \<or> flow = [LoadFlow, LoadFlowRun] \<and> outq = map qcall (zip nodes names)"
    using r by (cases r) simp_all
  have ok: "(\<exists>out. r = Inr out) \<longrightarrow>
        voltage_writes V (input_voltages vn vv) (trace w @ [Open f]) volt \<and>
        flow = [LoadFlow, LoadFlowRun] \<and> outq = map qcall (zip nodes names)"
    using r by (cases r) simp_all
  have noq: "\<forall>x\<in>set (Open f # volt @ lds @ pvs @ flow). \<not> is_node_query x"
    using kinds flow
    by (auto simp: list_all_iff dest: voltage_call_kind load_call_kind pv_call_kind)
  have q: "LoadFlowRun \<in> set pre"
    if eq: "Open f # volt @ lds @ pvs @ flow @ outq = pre @ c # post" and c: "is_node_query c"
    for pre c post
  proof -
    from eq have "(Open f # volt @ lds @ pvs @ flow) @ outq = pre @ c # post" by simp
    from split_before [OF this noq c]
    have sub: "set (Open f # volt @ lds @ pvs @ flow) \<subseteq> set pre" and "c \<in> set outq"
      by blast+
    then have "outq \<noteq> []" by auto
    with outq have "flow = [LoadFlow, LoadFlowRun]" by blast
    with sub show ?thesis by auto
  qed
  have a: "Open f \<in> set pre"
    if eq: "Open f # volt @ lds @ pvs @ flow @ outq = pre @ c # post" and c: "is_add_device c"
    for pre c post
  proof -
    from eq have "[Open f] @ (volt @ lds @ pvs @ flow @ outq) = pre @ c # post" by simp
    from split_before [where P = is_add_device, OF this _ c] show ?thesis by simp
  qed
  have q': "\<forall>pre c post. Open f # volt @ lds @ pvs @ flow @ outq = pre @ c # post \<and> is_node_query c
        \<longrightarrow> LoadFlowRun \<in> set pre"
    using q by blast
  have a': "\<forall>pre c post. Open f # volt @ lds @ pvs @ flow @ outq = pre @ c # post \<and> is_add_device c
        \<longrightarrow> Open f \<in> set pre"
    using a by blast
  show ?thesis
    apply (rule exI [of _ volt], rule exI [of _ lds], rule exI [of _ pvs])
    apply (rule exI [of _ flow], rule exI [of _ outq])
    apply (intro conjI)
              apply (rule tr kinds empty flow outq ok q' a')+
    done
qed

theorem fmu_wrapper_call_sequence_witness:
  "fst demo_run = Inr [PStr ''33.2'', PInt 0, PInt 0, PStr ''33.2''] \<and>
   (\<exists>volt lds pvs.
      demo_trace = Open ''BU0001.sxst'' # volt @ lds @ pvs @ [LoadFlow, LoadFlowRun]
        @ map qcall (zip demo_output_nodes demo_output_names) \<and>
      list_all is_voltage_call volt \<and> list_all is_load_call lds \<and> list_all is_pv_call pvs)"
proof -
  have run: "fmu_wrapper demo_vendor ''BU0001.sxst'' demo_voltage_names demo_voltage_values
     [''800033503''] [''KW''] [100] [''800033504''] [''KW''] [100]
     demo_output_names demo_output_nodes ''False'' demo_world =
     (Inr [PStr ''33.2'', PInt 0, PInt 0, PStr ''33.2''],
      \<lparr>trace = demo_trace, files = [], frames = []\<rparr>)"
    using demo_run_eq by (simp add: demo_run_def)
  from fmu_wrapper_call_sequence [OF run] obtain volt lds pvs flow outq where
    tr: "trace \<lparr>trace = demo_trace, files = [], frames = ([] :: int frame list)\<rparr> =
           trace demo_world @ Open ''BU0001.sxst'' # volt @ lds @ pvs @ flow @ outq"
    and kinds: "list_all is_voltage_call volt" "list_all is_load_call lds"
      "list_all is_pv_call pvs"
    and ok: "(\<exists>out. Inr [PStr ''33.2'', PInt 0, PInt 0, PStr ''33.2''] = (Inr out :: exn + pyval list)) \<longrightarrow>
        voltage_writes demo_vendor (input_voltages demo_voltage_names demo_voltage_values)
          (trace demo_world @ [Open ''BU0001.sxst'']) volt \<and>
        flow = [LoadFlow, LoadFlowRun] \<and> outq = map qcall (zip demo_output_nodes demo_output_names)"
    by (elim exE conjE) (rule that)
  from ok have "flow = [LoadFlow, LoadFlowRun]"
    and "outq = map qcall (zip demo_output_nodes demo_output_names)" by blast+
  with tr have "demo_trace = Open ''BU0001.sxst'' # volt @ lds @ pvs @ [LoadFlow, LoadFlowRun]
        @ map qcall (zip demo_output_nodes demo_output_names)"
    by (simp add: demo_world_def)
  then have "\<exists>volt lds pvs.
      demo_trace = Open ''BU0001.sxst'' # volt @ lds @ pvs @ [LoadFlow, LoadFlowRun]
        @ map qcall (zip demo_output_nodes demo_output_names) \<and>
      list_all is_voltage_call volt \<and> list_all is_load_call lds \<and> list_all is_pv_call pvs"
    using kinds by (intro exI [of _ volt] exI [of _ lds] exI [of _ pvs] conjI)
  moreover have "fst demo_run = Inr [PStr ''33.2'', PInt 0, PInt 0, PStr ''33.2'']"
    by (simp add: demo_run_eq)
  ultimately show ?thesis by (rule conjI [rotated])
qed

subsection \<open>load_allocation\<close>

lemma load_allocation_success:
  "wp (load_allocation V vals)
     (\<lambda>r w'. \<forall>x. r = Inr x \<longrightarrow>
        (\<exists>pa qa pb qb pc qc a b c n0.
           vals ''P_A'' = Some pa \<and> vals ''Q_A'' = Some qa \<and>
           vals ''P_B'' = Some pb \<and> vals ''Q_B'' = Some qb \<and>
           vals ''P_C'' = Some pc \<and> vals ''Q_C'' = Some qc \<and>
           vals ''VMAG_A'' = Some a \<and> vals ''VMAG_B'' = Some b \<and> vals ''VMAG_C'' = Some c \<and>
           first_network V (trace w @ la_prelude) n0 \<and>
           w' = w\<lparr>trace := trace w @ la_prelude @
                  [ListNetworks, SetDemand n0 (per_phase_demand pa qa pb qb pc qc),
                   SetValueTopo (a / 1000) (OperatingVoltage 1) n0,
                   SetValueTopo (b / 1000) (OperatingVoltage 2) n0,
                   SetValueTopo (c / 1000) (OperatingVoltage 3) n0,
                   LoadAllocationRun [n0]]\<rparr>)) w"
  unfolding load_allocation_def la_prelude_def first_network_def per_phase_demand_def
  by (auto simp: reply_sum_def item_sum_def new_meter_def new_load_value_def
        with_Value1_def with_Value2_def
      split: reply.splits option.splits sum.splits)

lemma load_allocation_calls:
  "wp (load_allocation V vals)
     (\<lambda>r w'. \<exists>evs. w' = w\<lparr>trace := trace w @ evs\<rparr> \<and>
        (\<forall>c\<in>set evs. is_topo_write c \<longrightarrow> kilovolt_write V vals (trace w @ la_prelude) c) \<and>
        (\<forall>n m. SetDemand n m \<in> set evs \<longrightarrow>
           first_network V (trace w @ la_prelude) n \<and>
           (\<exists>pa qa pb qb pc qc.
              vals ''P_A'' = Some pa \<and> vals ''Q_A'' = Some qa \<and>
              vals ''P_B'' = Some pb \<and> vals ''Q_B'' = Some qb \<and>
              vals ''P_C'' = Some pc \<and> vals ''Q_C'' = Some qc \<and>
              m = per_phase_demand pa qa pb qb pc qc)) \<and>
        (\<forall>ns. LoadAllocationRun ns \<in> set evs \<longrightarrow>
           (\<exists>n0. first_network V (trace w @ la_prelude) n0 \<and> ns = [n0]))) w"
  unfolding load_allocation_def la_prelude_def first_network_def per_phase_demand_def
    kilovolt_write_def
  by (auto simp: reply_sum_def item_sum_def new_meter_def new_load_value_def
        with_Value1_def with_Value2_def
      split: reply.splits option.splits sum.splits)

lemma load_allocation_returns:
  assumes "\<forall>h c. V h c \<noteq> Raises"
    and "vals ''P_A'' = Some pa" "vals ''Q_A'' = Some qa"
    and "vals ''P_B'' = Some pb" "vals ''Q_B'' = Some qb"
    and "vals ''P_C'' = Some pc" "vals ''Q_C'' = Some qc"
    and "vals ''VMAG_A'' = Some a" "vals ''VMAG_B'' = Some b" "vals ''VMAG_C'' = Some c"
    and "first_network V (trace w @ la_prelude) n0"
  shows "wp (load_allocation V vals) (\<lambda>r w'. r = Inr ()) w"
proof -
  have ok: "reply_sum (V h c) = Inr (case V h c of Returns v \<Rightarrow> v)" for h c
    using assms(1) [rule_format, of h c] by (cases "V h c") (simp_all add: reply_sum_def)
  from assms(11) obtain nets where
    nets: "V (trace w @ la_prelude) ListNetworks = Returns nets" "subscript0 nets = Inr n0"
    by (auto simp: first_network_def)
  show ?thesis
    unfolding load_allocation_def
    using nets assms(2-10)
    by (simp add: ok item_sum_def la_prelude_def)
qed

lemma demo_values_keys [simp]:
  "demo_values ''P_A'' = Some 1200" "demo_values ''Q_A'' = Some 300"
  "demo_values ''P_B'' = Some 1100" "demo_values ''Q_B'' = Some 280"
  "demo_values ''P_C'' = Some 1250" "demo_values ''Q_C'' = Some 310"
  "demo_values ''VMAG_A'' = Some 7200" "demo_values ''VMAG_B'' = Some 7200"
  "demo_values ''VMAG_C'' = Some 7200"
  by (simp_all add: demo_values_def)

lemma demo_first_network [simp]: "first_network demo_vendor h n = (n = PStr ''BU0001'')"
  by (auto simp: first_network_def demo_vendor_def)

lemma demo_allocation_eq:
  "load_allocation demo_vendor demo_values demo_world =
     (Inr (), \<lparr>trace = demo_allocation_trace, files = [], frames = []\<rparr>)"
  apply (rule wp_eq)
  apply (simp add: load_allocation_def reply_sum_def item_sum_def demo_vendor_def
      demo_world_def new_meter_def new_load_value_def with_Value1_def with_Value2_def
      per_phase_demand_def demo_allocation_trace_def)
  done

lemma voltage_writes_filter:
  "voltage_writes V vs h volt \<Longrightarrow> ListNetworks # filter is_topo_write volt = volt"
  by (auto simp: voltage_writes_def)

lemma no_topo_write_qcall [simp]: "filter is_topo_write (map qcall ps) = []"
  by (induction ps) (simp_all add: qcall_def)

text \<open>
  C7. For an input dictionary with the nine keys, load_allocation passes to
  \<^verbatim>\<open>SetDemand\<close> a per-phase demand (\<^verbatim>\<open>IsTotalDemand = False\<close>) whose phase X carries
  \<open>Value1 = P_X\<close> and \<open>Value2 = Q_X\<close> with load value type KW_KVAR, for the first network
  of the reply to \<^verbatim>\<open>ListNetworks\<close> and for no other; it writes that network's three
  source voltages and runs the allocation on the list holding that one network. Every
  call of these kinds issued by any run is of this form; a run that returns has issued
  exactly this sequence; and the run returns when the simulator raises nothing and the
  reply has a first network.
\<close>

theorem load_allocation_demand:
  assumes keys: "vals ''P_A'' = Some pa" "vals ''Q_A'' = Some qa"
      "vals ''P_B'' = Some pb" "vals ''Q_B'' = Some qb"
      "vals ''P_C'' = Some pc" "vals ''Q_C'' = Some qc"
      "vals ''VMAG_A'' = Some a" "vals ''VMAG_B'' = Some b" "vals ''VMAG_C'' = Some c"
    and run: "load_allocation V vals w = (r, w')"
  shows "\<exists>evs. w' = w\<lparr>trace := trace w @ evs\<rparr> \<and>
     (\<forall>n m. SetDemand n m \<in> set evs \<longrightarrow>
        first_network V (trace w @ la_prelude) n \<and> m = per_phase_demand pa qa pb qb pc qc) \<and>
     (\<forall>ns. LoadAllocationRun ns \<in> set evs \<longrightarrow>
        (\<exists>n0. first_network V (trace w @ la_prelude) n0 \<and> ns = [n0])) \<and>
     (\<forall>x\<in>set evs. is_topo_write x \<longrightarrow> kilovolt_write V vals (trace w @ la_prelude) x) \<and>
     (r = Inr () \<longrightarrow>
        (\<exists>n0. first_network V (trace w @ la_prelude) n0 \<and>
           evs = la_prelude @
             [ListNetworks, SetDemand n0 (per_phase_demand pa qa pb qb pc qc),
              SetValueTopo (a / 1000) (OperatingVoltage 1) n0,
              SetValueTopo (b / 1000) (OperatingVoltage 2) n0,
              SetValueTopo (c / 1000) (OperatingVoltage 3) n0,
              LoadAllocationRun [n0]])) \<and>
     ((\<forall>h x. V h x \<noteq> Raises) \<and> (\<exists>n0. first_network V (trace w @ la_prelude) n0) \<longrightarrow>
        r = Inr ())"
proof -
  from wp_run [OF run load_allocation_calls] obtain evs where
    w': "w' = w\<lparr>trace := trace w @ evs\<rparr>"
    and topo: "\<forall>x\<in>set evs. is_topo_write x \<longrightarrow> kilovolt_write V vals (trace w @ la_prelude) x"
    and dem: "\<forall>n m. SetDemand n m \<in> set evs \<longrightarrow>
           first_network V (trace w @ la_prelude) n \<and>
           (\<exists>pa qa pb qb pc qc.
              vals ''P_A'' = Some pa \<and> vals ''Q_A'' = Some qa \<and>
              vals ''P_B'' = Some pb \<and> vals ''Q_B'' = Some qb \<and>
              vals ''P_C'' = Some pc \<and> vals ''Q_C'' = Some qc \<and>
              m = per_phase_demand pa qa pb qb pc qc)"
    and runs: "\<forall>ns. LoadAllocationRun ns \<in> set evs \<longrightarrow>
           (\<exists>n0. first_network V (trace w @ la_prelude) n0 \<and> ns = [n0])"
    by (elim exE conjE) (rule that)
  have dem': "\<forall>n m. SetDemand n m \<in> set evs \<longrightarrow>
        first_network V (trace w @ la_prelude) n \<and> m = per_phase_demand pa qa pb qb pc qc"
    using dem keys(1-6) by fastforce
  have ok: "r = Inr () \<longrightarrow>
        (\<exists>n0. first_network V (trace w @ la_prelude) n0 \<and>
           evs = la_prelude @
             [ListNetworks, SetDemand n0 (per_phase_demand pa qa pb qb pc qc),
              SetValueTopo (a / 1000) (OperatingVoltage 1) n0,
              SetValueTopo (b / 1000) (OperatingVoltage 2) n0,
              SetValueTopo (c / 1000) (OperatingVoltage 3) n0,
              LoadAllocationRun [n0]])"
  proof
    assume "r = Inr ()"
    with wp_run [OF run load_allocation_success] obtain n0 where
      "first_network V (trace w @ la_prelude) n0"
      "w' = w\<lparr>trace := trace w @ la_prelude @
             [ListNetworks, SetDemand n0 (per_phase_demand pa qa pb qb pc qc),
              SetValueTopo (a / 1000) (OperatingVoltage 1) n0,
              SetValueTopo (b / 1000) (OperatingVoltage 2) n0,
              SetValueTopo (c / 1000) (OperatingVoltage 3) n0,
              LoadAllocationRun [n0]]\<rparr>"
      using keys by auto
    with w' show "\<exists>n0. first_network V (trace w @ la_prelude) n0 \<and>
           evs = la_prelude @
             [ListNetworks, SetDemand n0 (per_phase_demand pa qa pb qb pc qc),
              SetValueTopo (a / 1000) (OperatingVoltage 1) n0,
              SetValueTopo (b / 1000) (OperatingVoltage 2) n0,
              SetValueTopo (c / 1000) (OperatingVoltage 3) n0,
              LoadAllocationRun [n0]]"
      by (intro exI [of _ n0]) simp
  qed
  have total: "(\<forall>h x. V h x \<noteq> Raises) \<and> (\<exists>n0. first_network V (trace w @ la_prelude) n0) \<longrightarrow>
        r = Inr ()"
  proof (intro impI, elim conjE exE)
    fix n0
    assume "\<forall>h x. V h x \<noteq> Raises" and "first_network V (trace w @ la_prelude) n0"
    from wp_run [OF run load_allocation_returns [OF this(1) keys this(2)]]
    show "r = Inr ()" .
  qed
  show ?thesis
    apply (rule exI [of _ evs])
    apply (intro conjI)
         apply (rule w' dem' runs topo ok total)+
    done
qed

theorem load_allocation_demand_witness:
  "load_allocation demo_vendor demo_values demo_world =
     (Inr (), \<lparr>trace = demo_allocation_trace, files = [], frames = []\<rparr>) \<and>
   demo_allocation_trace = la_prelude @
     [ListNetworks, SetDemand (PStr ''BU0001'') (per_phase_demand 1200 300 1100 280 1250 310),
      SetValueTopo (7200 / 1000) (OperatingVoltage 1) (PStr ''BU0001''),
      SetValueTopo (7200 / 1000) (OperatingVoltage 2) (PStr ''BU0001''),
      SetValueTopo (7200 / 1000) (OperatingVoltage 3) (PStr ''BU0001''),
      LoadAllocationRun [PStr ''BU0001'']]"
proof -
  from load_allocation_demand [OF demo_values_keys demo_allocation_eq]
  obtain evs where
    "\<lparr>trace = demo_allocation_trace, files = [], frames = ([] :: int frame list)\<rparr> =
       demo_world\<lparr>trace := trace demo_world @ evs\<rparr>"
    and "(Inr () :: exn + unit) = Inr () \<longrightarrow>
        (\<exists>n0. first_network demo_vendor (trace demo_world @ la_prelude) n0 \<and>
           evs = la_prelude @
             [ListNetworks, SetDemand n0 (per_phase_demand 1200 300 1100 280 1250 310),
              SetValueTopo (7200 / 1000) (OperatingVoltage 1) n0,
              SetValueTopo (7200 / 1000) (OperatingVoltage 2) n0,
              SetValueTopo (7200 / 1000) (OperatingVoltage 3) n0,
              LoadAllocationRun [n0]])"
    by (elim exE conjE) (rule that)
  then have "demo_allocation_trace = la_prelude @
     [ListNetworks, SetDemand (PStr ''BU0001'') (per_phase_demand 1200 300 1100 280 1250 310),
      SetValueTopo (7200 / 1000) (OperatingVoltage 1) (PStr ''BU0001''),
      SetValueTopo (7200 / 1000) (OperatingVoltage 2) (PStr ''BU0001''),
      SetValueTopo (7200 / 1000) (OperatingVoltage 3) (PStr ''BU0001''),
      LoadAllocationRun [PStr ''BU0001'']]"
    by (simp add: demo_world_def)
  with demo_allocation_eq show ?thesis by (rule conjI)
qed

text \<open>
  C4. Both fmu_wrapper (through \<^verbatim>\<open>_set_voltages\<close>) and load_allocation write, for each
  phase X, the value \<open>VMAG_X / 1000\<close> to the operating voltage of phase X of the first
  network of the reply to \<^verbatim>\<open>ListNetworks\<close>, and write to no other network: every
  \<^verbatim>\<open>SetValueTopo\<close> of any run is such a write, and in a run that returns the
  \<^verbatim>\<open>SetValueTopo\<close> calls are exactly the three writes, in the order A, B, C.
\<close>

theorem source_voltage_in_kilovolts:
  fixes w :: "'l world"
  shows
    "(fmu_wrapper V f vn vv ls lp lv ps pp pvv names nodes wr w = (r, w') \<longrightarrow>
        (\<forall>c\<in>set (drop (length (trace w)) (trace w')). is_topo_write c \<longrightarrow>
           kilovolt_write V (input_voltages vn vv) (trace w @ [Open f]) c) \<and>
        ((\<exists>out. r = Inr out) \<longrightarrow>
           voltage_writes V (input_voltages vn vv) (trace w @ [Open f])
             (ListNetworks # filter is_topo_write (drop (length (trace w)) (trace w'))))) \<and>
     (load_allocation V vals w = (r2, w2) \<longrightarrow>
        (\<forall>c\<in>set (drop (length (trace w)) (trace w2)). is_topo_write c \<longrightarrow>
           kilovolt_write V vals (trace w @ la_prelude) c) \<and>
        ((\<exists>x. r2 = Inr x) \<longrightarrow>
           voltage_writes V vals (trace w @ la_prelude)
             (ListNetworks # filter is_topo_write (drop (length (trace w)) (trace w2)))))"
proof (intro conjI impI)
  assume run: "fmu_wrapper V f vn vv ls lp lv ps pp pvv names nodes wr w = (r, w')"
  from fmu_wrapper_run [OF run] obtain volt lds pvs flow outq where
    w': "w' = w\<lparr>trace := trace w @ Open f # volt @ lds @ pvs @ flow @ outq\<rparr>"
    and kinds: "list_all is_load_call lds" "list_all is_pv_call pvs"
    and flow: "flow = [] \<or> flow = [LoadFlow] \<or> flow = [LoadFlow, LoadFlowRun]"
    and r: "case r of
        Inl e \<Rightarrow> outq = []
      | Inr out \<Rightarrow>
          flow = [LoadFlow, LoadFlowRun] \<and> outq = map qcall (zip nodes names) \<and>
          out = replies V (PInt 0) (trace w @ Open f # volt @ lds @ pvs @ flow) (zip nodes names) \<and>
          voltage_writes V (input_voltages vn vv) (trace w @ [Open f]) volt"
    and kv: "\<forall>c\<in>set volt. is_topo_write c \<longrightarrow>
        kilovolt_write V (input_voltages vn vv) (trace w @ [Open f]) c"
    by (elim exE conjE) (rule that)
  have evs: "drop (length (trace w)) (trace w') = Open f # volt @ lds @ pvs @ flow @ outq"
    by (simp add: w')
  have l: "filter is_topo_write lds = []" "filter is_topo_write pvs = []"
    using kinds by (auto simp: list_all_iff filter_empty_conv dest: load_call_kind pv_call_kind)
  have fl: "filter is_topo_write flow = []"
    using flow by auto
  have q: "filter is_topo_write outq = []"
    using r by (cases r) simp_all
  have topo: "filter is_topo_write (drop (length (trace w)) (trace w')) = filter is_topo_write volt"
    by (simp add: evs l fl q)
  show "\<forall>c\<in>set (drop (length (trace w)) (trace w')). is_topo_write c \<longrightarrow>
           kilovolt_write V (input_voltages vn vv) (trace w @ [Open f]) c"
  proof (intro ballI impI)
    fix c
    assume "c \<in> set (drop (length (trace w)) (trace w'))" and "is_topo_write c"
    then have "c \<in> set (filter is_topo_write (drop (length (trace w)) (trace w')))" by simp
    then have "c \<in> set volt" "is_topo_write c" unfolding topo by simp_all
    with kv show "kilovolt_write V (input_voltages vn vv) (trace w @ [Open f]) c" by blast
  qed
  show "voltage_writes V (input_voltages vn vv) (trace w @ [Open f])
             (ListNetworks # filter is_topo_write (drop (length (trace w)) (trace w')))"
    if "\<exists>out. r = Inr out"
  proof -
    from that r have "voltage_writes V (input_voltages vn vv) (trace w @ [Open f]) volt"
      by auto
    then show ?thesis
      unfolding topo by (simp add: voltage_writes_filter)
  qed
next
  assume run: "load_allocation V vals w = (r2, w2)"
  from wp_run [OF run load_allocation_calls] obtain evs where
    w2: "w2 = w\<lparr>trace := trace w @ evs\<rparr>"
    and topo: "\<forall>x\<in>set evs. is_topo_write x \<longrightarrow> kilovolt_write V vals (trace w @ la_prelude) x"
    by (elim exE conjE) (rule that)
  have evs: "drop (length (trace w)) (trace w2) = evs"
    by (simp add: w2)
  show "\<forall>c\<in>set (drop (length (trace w)) (trace w2)). is_topo_write c \<longrightarrow>
           kilovolt_write V vals (trace w @ la_prelude) c"
    unfolding evs by (rule topo)
  show "voltage_writes V vals (trace w @ la_prelude)
             (ListNetworks # filter is_topo_write (drop (length (trace w)) (trace w2)))"
    if "\<exists>x. r2 = Inr x"
  proof -
    from that wp_run [OF run load_allocation_success]
    obtain pa qa pb qb pc qc a b c n0 where
      k: "vals ''VMAG_A'' = Some a" "vals ''VMAG_B'' = Some b" "vals ''VMAG_C'' = Some c"
      and n0: "first_network V (trace w @ la_prelude) n0"
      and "w2 = w\<lparr>trace := trace w @ la_prelude @
                  [ListNetworks, SetDemand n0 (per_phase_demand pa qa pb qb pc qc),
                   SetValueTopo (a / 1000) (OperatingVoltage 1) n0,
                   SetValueTopo (b / 1000) (OperatingVoltage 2) n0,
                   SetValueTopo (c / 1000) (OperatingVoltage 3) n0,
                   LoadAllocationRun [n0]]\<rparr>"
      by auto
    then have "filter is_topo_write (drop (length (trace w)) (trace w2)) =
        [SetValueTopo (a / 1000) (OperatingVoltage 1) n0,
         SetValueTopo (b / 1000) (OperatingVoltage 2) n0,
         SetValueTopo (c / 1000) (OperatingVoltage 3) n0]"
      by (simp add: la_prelude_def)
    with k n0 show ?thesis
      by (auto simp: voltage_writes_def first_network_def)
  qed
qed

theorem source_voltage_in_kilovolts_witness:
  "filter is_topo_write demo_trace =
     [SetValueTopo (2520 / 1000) (OperatingVoltage 1) (PStr ''BU0001''),
      SetValueTopo (2520 / 1000) (OperatingVoltage 2) (PStr ''BU0001''),
      SetValueTopo (2520 / 1000) (OperatingVoltage 3) (PStr ''BU0001'')] \<and>
   filter is_topo_write demo_allocation_trace =
     [SetValueTopo (7200 / 1000) (OperatingVoltage 1) (PStr ''BU0001''),
      SetValueTopo (7200 / 1000) (OperatingVoltage 2) (PStr ''BU0001''),
      SetValueTopo (7200 / 1000) (OperatingVoltage 3) (PStr ''BU0001'')]"
proof -
  have run: "fmu_wrapper demo_vendor ''BU0001.sxst'' demo_voltage_names demo_voltage_values
     [''800033503''] [''KW''] [100] [''800033504''] [''KW''] [100]
     demo_output_names demo_output_nodes ''False'' demo_world =
     (Inr [PStr ''33.2'', PInt 0, PInt 0, PStr ''33.2''],
      \<lparr>trace = demo_trace, files = [], frames = []\<rparr>)"
    using demo_run_eq by (simp add: demo_run_def)
  note both = source_voltage_in_kilovolts [of demo_vendor "''BU0001.sxst''" demo_voltage_names
      demo_voltage_values "[''800033503'']" "[''KW'']" "[100]" "[''800033504'']" "[''KW'']"
      "[100]" demo_output_names demo_output_nodes "''False''" demo_world
      "Inr [PStr ''33.2'', PInt 0, PInt 0, PStr ''33.2'']"
      "\<lparr>trace = demo_trace, files = [], frames = []\<rparr>"
      demo_values "Inr ()" "\<lparr>trace = demo_allocation_trace, files = [], frames = []\<rparr>"]
  from both run have
    "voltage_writes demo_vendor (input_voltages demo_voltage_names demo_voltage_values)
       (trace demo_world @ [Open ''BU0001.sxst''])
       (ListNetworks # filter is_topo_write (drop (length (trace demo_world)) demo_trace))"
    by simp
  then have one: "filter is_topo_write demo_trace =
     [SetValueTopo (2520 / 1000) (OperatingVoltage 1) (PStr ''BU0001''),
      SetValueTopo (2520 / 1000) (OperatingVoltage 2) (PStr ''BU0001''),
      SetValueTopo (2520 / 1000) (OperatingVoltage 3) (PStr ''BU0001'')]"
    by (auto simp: voltage_writes_def demo_world_def demo_vendor_def)
  from both demo_allocation_eq have
    "voltage_writes demo_vendor demo_values (trace demo_world @ la_prelude)
       (ListNetworks # filter is_topo_write (drop (length (trace demo_world)) demo_allocation_trace))"
    by simp
  then have two: "filter is_topo_write demo_allocation_trace =
     [SetValueTopo (7200 / 1000) (OperatingVoltage 1) (PStr ''BU0001''),
      SetValueTopo (7200 / 1000) (OperatingVoltage 2) (PStr ''BU0001''),
      SetValueTopo (7200 / 1000) (OperatingVoltage 3) (PStr ''BU0001'')]"
    by (auto simp: voltage_writes_def demo_world_def demo_vendor_def)
  from one two show ?thesis by (rule conjI)
qed

subsection \<open>Loads and photovoltaic devices\<close>















section \<open>Result extraction\<close>

subsection \<open>Rules for the frame store\<close>

lemma wp_frame_copy [simp]:
  "wp (frame_copy a) Q w = Q (Inr (length (frames w))) (w\<lparr>frames := frames w @ [frames w ! a]\<rparr>)"
  by (simp add: wp_def frame_copy_def)

lemma wp_new_frame [simp]:
  "wp (new_frame F) Q w = Q (Inr (length (frames w))) (w\<lparr>frames := frames w @ [F]\<rparr>)"
  by (simp add: wp_def new_frame_def)

lemma wp_frame_len [simp]: "wp (frame_len a) Q w = Q (Inr (length (index (frames w ! a)))) w"
  by (simp add: wp_def frame_len_def)

lemma wp_frame_rows [simp]: "wp (frame_rows a) Q w = Q (Inr (itertuples (frames w ! a))) w"
  by (simp add: wp_def frame_rows_def)

lemma wp_update_frame [simp]:
  "wp (update_frame a f) Q w = Q (Inr ()) (w\<lparr>frames := (frames w)[a := f (frames w ! a)]\<rparr>)"
  by (simp add: wp_def update_frame_def)

lemma wp_set_column:
  "wp (set_column a c vs) Q w =
     (if length vs = length (index (frames w ! a))
      then Q (Inr ()) (w\<lparr>frames := (frames w)[a := (frames w ! a)\<lparr>cols := AList.update c vs (cols (frames w ! a))\<rparr>]\<rparr>)
      else Q (Inl ValueError) w)"
  by (simp add: wp_def set_column_def update_frame_def raise_def)

lemma wp_get_column:
  "wp (get_column a c) Q w =
     Q (case column (frames w ! a) c of None \<Rightarrow> Inl (KeyError c) | Some vs \<Rightarrow> Inr vs) w"
  by (simp add: wp_def get_column_def column_def raise_def ret_def split: option.splits)

lemma length_map_exn: "map_exn f xs = Inr ys \<Longrightarrow> length ys = length xs"
  by (induction xs arbitrary: ys) (auto split: sum.splits)

subsection \<open>Kept frames\<close>

lemma kept_refl: "kept R {} F F"
  by (simp add: kept_def)

lemma kept_set_column:
  assumes "kept R S F F'" and "c \<in> R"
  shows "kept R (insert c S) F (F'\<lparr>cols := AList.update c vs (cols F')\<rparr>)"
  using assms
  by (auto simp: kept_def column_def col_names_def update_conv' update_keys)

lemma kept_loc_assign:
  assumes "kept R S F F'" and "c \<in> R" and "c \<in> S" and "l \<in> set (index F)"
  shows "kept R S F (loc_assign l c v F')"
proof -
  from assms have l: "l \<in> set (index F')" by (simp add: kept_def)
  from assms have "c \<in> set (col_names F')" by (simp add: kept_def)
  then have "insert c S \<subseteq> set (col_names F') \<union> S" by auto
  have eq: "loc_assign l c v F' = F'\<lparr>cols := AList.update c
      (map (\<lambda>(l', x). if l' = l then v else x)
         (zip (index F') (case map_of (cols F') c of
                            None \<Rightarrow> replicate (length (index F')) PNone | Some vs \<Rightarrow> vs)))
      (cols F')\<rparr>"
    using l by (simp add: loc_assign_def Let_def)
  have "kept R (insert c S) F (loc_assign l c v F')"
    unfolding eq by (rule kept_set_column [OF assms(1,2)])
  moreover have "insert c S = S" using assms(3) by auto
  ultimately show ?thesis by simp
qed

lemma copy_ok_trace [simp]: "copy_ok R S w0 a (w\<lparr>trace := t\<rparr>) = copy_ok R S w0 a w"
  by (simp add: copy_ok_def)

lemma copy_ok_init: "copy_ok R {} w a (w\<lparr>frames := frames w @ [frames w ! a]\<rparr>)"
  by (simp add: copy_ok_def kept_refl)

lemma copy_ok_update:
  assumes "copy_ok R S w0 a w"
    and "kept R S (frames w0 ! a) (frames w ! length (frames w0)) \<Longrightarrow>
         kept R S' (frames w0 ! a) (f (frames w ! length (frames w0)))"
  shows "copy_ok R S' w0 a (w\<lparr>frames := (frames w)[length (frames w0) := f (frames w ! length (frames w0))]\<rparr>)"
  using assms by (simp add: copy_ok_def)

lemma copy_ok_input: "copy_ok R S w0 a w \<Longrightarrow> a < length (frames w0) \<Longrightarrow> frames w ! a = frames w0 ! a"
  by (metis copy_ok_def nth_take)

lemma Index_itertuples: "x \<in> set (itertuples F) \<Longrightarrow> Index x \<in> set (index F)"
  by (auto simp: itertuples_def)

subsection \<open>Steps that keep the copy\<close>

lemma zero_column_step:
  assumes "copy_ok R S w0 a w" and "c \<in> R"
    and "\<And>w'. copy_ok R (insert c S) w0 a w' \<Longrightarrow> Q (Inr ()) w'"
  shows "wp (zero_column (length (frames w0)) c) Q w"
  unfolding zero_column_def
  by (simp add: wp_set_column)
     (rule assms(3), rule copy_ok_update [OF assms(1)], rule kept_set_column [OF _ assms(2)])

lemma loc_set_step:
  assumes "copy_ok R S w0 a w" and "c \<in> R" and "c \<in> S" and "l \<in> set (index (frames w0 ! a))"
    and "\<And>w'. copy_ok R S w0 a w' \<Longrightarrow> Q (Inr ()) w'"
  shows "wp (loc_set (length (frames w0)) l c v) Q w"
  unfolding loc_set_def
  by simp (rule assms(5), rule copy_ok_update [OF assms(1)], rule kept_loc_assign [OF _ assms(2,3,4)])

lemma store_device_query_step:
  assumes "copy_ok R S w0 a w" and "c \<in> R" and "c \<in> S"
    and "Index row \<in> set (index (frames w0 ! a))"
    and "\<And>r w'. copy_ok R S w0 a w' \<Longrightarrow> Q r w'"
  shows "wp (store_device_query V B (length (frames w0)) row c key) Q w"
  unfolding store_device_query_def
  by (auto split: sum.splits intro!: loc_set_step [OF _ assms(2,3,4)] assms(5) assms(1)
        simp: assms(1))

lemma store_node_query_step:
  assumes "copy_ok R S w0 a w" and "c \<in> R" and "c \<in> S"
    and "Index row \<in> set (index (frames w0 ! a))"
    and "\<And>r w'. copy_ok R S w0 a w' \<Longrightarrow> Q r w'"
  shows "wp (store_node_query V (length (frames w0)) row c key) Q w"
  unfolding store_node_query_def
  by (auto split: sum.splits intro!: loc_set_step [OF _ assms(2,3,4)] assms(5) assms(1)
        simp: assms(1))

lemma assign_apply_step:
  assumes "copy_ok R S w0 a w" and "c \<in> R" and "c \<in> S"
    and "\<And>r w'. copy_ok R S w0 a w' \<Longrightarrow> Q r w'"
  shows "wp (assign_apply (length (frames w0)) c c f) Q w"
proof -
  have same: "insert c S = S" using assms(3) by auto
  have upd: "copy_ok R S w0 a
      (w\<lparr>frames := (frames w)[length (frames w0) :=
           (frames w ! length (frames w0))\<lparr>cols := AList.update c vs (cols (frames w ! length (frames w0)))\<rparr>]\<rparr>)"
    for vs
  proof (rule copy_ok_update [OF assms(1)])
    assume "kept R S (frames w0 ! a) (frames w ! length (frames w0))"
    from kept_set_column [OF this assms(2), of vs]
    show "kept R S (frames w0 ! a)
       ((frames w ! length (frames w0))\<lparr>cols := AList.update c vs (cols (frames w ! length (frames w0)))\<rparr>)"
      by (simp add: same)
  qed
  show ?thesis
    unfolding assign_apply_def
    by (auto simp: wp_get_column wp_set_column split: option.splits sum.splits
          intro!: assms(4) assms(1) upd)
qed

lemma for_each_step:
  assumes "I w" and "\<And>x w1. x \<in> set xs \<Longrightarrow> I w1 \<Longrightarrow> wp (body x) (\<lambda>r w'. I w') w1"
    and "\<And>r w'. I w' \<Longrightarrow> Q r w'"
  shows "wp (for_each xs body) Q w"
proof -
  have "wp (for_each xs body) (\<lambda>r w'. I w') w"
    using assms(1,2) by (rule wp_for_each)
  then show ?thesis
    by (rule wp_mono) (rule assms(3))
qed

subsection \<open>The five functions keep their input\<close>

lemma copy_ok_sets: "copy_ok R S w0 a w \<Longrightarrow> S = S' \<Longrightarrow> copy_ok R S' w0 a w"
  by simp

lemma get_distance_copy:
  assumes a: "a < length (frames w)"
  shows "wp (get_distance V B a)
     (\<lambda>r w'. copy_ok (set distance_columns) (set distance_columns) w a w' \<and>
        (\<forall>b. r = Inr b \<longrightarrow> b = length (frames w))) w"
proof -
  let ?R = "set distance_columns"
  let ?I = "copy_ok ?R {''distance''} w a"
  have R: "''distance'' \<in> ?R"
    by (simp add: distance_columns_def)
  have fin: "copy_ok ?R ?R w a w'" if "?I w'" for w'
    using that by (rule copy_ok_sets) (simp add: distance_columns_def)
  show ?thesis
    unfolding get_distance_def
    apply simp
    apply (rule zero_column_step [where R = ?R, OF copy_ok_init R])
    apply (simp add: copy_ok_input [OF _ a])
    apply (rule for_each_step [where I = ?I])
      apply assumption
     apply (rule store_device_query_step [where R = ?R and S = "{''distance''}", OF _ R],
        assumption, simp, erule Index_itertuples, assumption)
    apply (simp split: sum.splits add: fin)
    apply (intro allI impI)
    apply (rule assign_apply_step [where R = ?R and S = "{''distance''}", OF _ R], assumption, simp)
    apply (simp split: sum.splits add: fin)
    done
qed

lemma get_voltage_copy:
  assumes a: "a < length (frames w)"
  shows "wp (get_voltage V B a is_node)
     (\<lambda>r w'. copy_ok (set voltage_columns) (set voltage_columns) w a w' \<and>
        (\<forall>b. r = Inr b \<longrightarrow> b = length (frames w))) w"
proof -
  let ?R = "set voltage_columns"
  let ?S = "{''voltage_C'', ''voltage_B'', ''voltage_A''}"
  let ?I = "copy_ok ?R ?S w a"
  have R: "''voltage_A'' \<in> ?R" "''voltage_B'' \<in> ?R" "''voltage_C'' \<in> ?R"
    by (simp_all add: voltage_columns_def)
  have fin: "copy_ok ?R ?R w a w'" if "?I w'" for w'
    using that by (rule copy_ok_sets) (auto simp: voltage_columns_def)
  have dev: "wp (store_device_query V B (length (frames w)) x c key) Q w1"
    if "?I w1" "c \<in> ?R" "c \<in> ?S" "x \<in> set (itertuples (frames w ! a))"
      "\<And>r w'. ?I w' \<Longrightarrow> Q r w'" for x c key Q w1
    using that(1,2,3) Index_itertuples [OF that(4)] that(5) by (rule store_device_query_step)
  have node: "wp (store_node_query V (length (frames w)) x c key) Q w1"
    if "?I w1" "c \<in> ?R" "c \<in> ?S" "x \<in> set (itertuples (frames w ! a))"
      "\<And>r w'. ?I w' \<Longrightarrow> Q r w'" for x c key Q w1
    using that(1,2,3) Index_itertuples [OF that(4)] that(5) by (rule store_node_query_step)
  have cast: "wp (assign_apply (length (frames w)) c c f) Q w1"
    if "?I w1" "c \<in> ?R" "c \<in> ?S" "\<And>r w'. ?I w' \<Longrightarrow> Q r w'" for c f Q w1
    using that by (rule assign_apply_step)
  have body: "wp (if \<not> is_node then
              bnd (store_device_query V B (length (frames w)) x ''voltage_A'' ''VpuA'') (\<lambda>_.
              bnd (store_device_query V B (length (frames w)) x ''voltage_B'' ''VpuB'') (\<lambda>_.
              store_device_query V B (length (frames w)) x ''voltage_C'' ''VpuC''))
            else
              bnd (store_node_query V (length (frames w)) x ''voltage_A'' ''VpuA'') (\<lambda>_.
              bnd (store_node_query V (length (frames w)) x ''voltage_B'' ''VpuB'') (\<lambda>_.
              store_node_query V (length (frames w)) x ''voltage_C'' ''VpuC'')))
          (\<lambda>r w'. ?I w') w1"
    if "x \<in> set (itertuples (frames w ! a))" "?I w1" for x w1
    using that
    by (auto simp: R split: sum.splits intro!: dev node)
  show ?thesis
    unfolding get_voltage_def
    apply simp
    apply (rule zero_column_step [where R = ?R, OF copy_ok_init R(1)])
    apply simp
    apply (rule zero_column_step [where R = ?R, OF _ R(2)], assumption)
    apply simp
    apply (rule zero_column_step [where R = ?R, OF _ R(3)], assumption)
    apply (simp only: wp_bnd wp_frame_rows sum.case copy_ok_input [OF _ a])
    apply (rule for_each_step [where I = ?I])
      apply assumption
     apply (erule (1) body)
    apply (auto simp: R fin split: sum.splits intro!: cast)
    done
qed

lemma get_overload_copy:
  assumes a: "a < length (frames w)"
  shows "wp (get_overload V B a)
     (\<lambda>r w'. copy_ok (set overload_columns) (set overload_columns) w a w' \<and>
        (\<forall>b. r = Inr b \<longrightarrow> b = length (frames w))) w"
proof -
  let ?R = "set overload_columns"
  let ?S = "{''overload_C'', ''overload_B'', ''overload_A''}"
  let ?I = "copy_ok ?R ?S w a"
  have R: "''overload_A'' \<in> ?R" "''overload_B'' \<in> ?R" "''overload_C'' \<in> ?R"
    by (simp_all add: overload_columns_def)
  have fin: "copy_ok ?R ?R w a w'" if "?I w'" for w'
    using that by (rule copy_ok_sets) (auto simp: overload_columns_def)
  have dev: "wp (store_device_query V B (length (frames w)) x c key) Q w1"
    if "?I w1" "c \<in> ?R" "c \<in> ?S" "x \<in> set (itertuples (frames w ! a))"
      "\<And>r w'. ?I w' \<Longrightarrow> Q r w'" for x c key Q w1
    using that(1,2,3) Index_itertuples [OF that(4)] that(5) by (rule store_device_query_step)
  have cast: "wp (assign_apply (length (frames w)) c c f) Q w1"
    if "?I w1" "c \<in> ?R" "c \<in> ?S" "\<And>r w'. ?I w' \<Longrightarrow> Q r w'" for c f Q w1
    using that by (rule assign_apply_step)
  have body: "wp (
              bnd (store_device_query V B (length (frames w)) x ''overload_A'' ''OverloadAmpsA'') (\<lambda>_.
              bnd (store_device_query V B (length (frames w)) x ''overload_B'' ''OverloadAmpsB'') (\<lambda>_.
              store_device_query V B (length (frames w)) x ''overload_C'' ''OverloadAmpsC'')))
          (\<lambda>r w'. ?I w') w1"
    if "x \<in> set (itertuples (frames w ! a))" "?I w1" for x w1
    using that
    by (auto simp: R split: sum.splits intro!: dev)
  show ?thesis
    unfolding get_overload_def
    apply simp
    apply (rule zero_column_step [where R = ?R, OF copy_ok_init R(1)])
    apply simp
    apply (rule zero_column_step [where R = ?R, OF _ R(2)], assumption)
    apply simp
    apply (rule zero_column_step [where R = ?R, OF _ R(3)], assumption)
    apply (simp only: wp_bnd wp_frame_rows sum.case copy_ok_input [OF _ a])
    apply (rule for_each_step [where I = ?I])
      apply assumption
     apply (erule (1) body)
    apply (auto simp: R fin split: sum.splits intro!: cast)
    done
qed

lemma get_coordinates_copy:
  assumes a: "a < length (frames w)"
  shows "wp (get_coordinates V B a)
     (\<lambda>r w'. copy_ok (set coordinate_columns) (set coordinate_columns) w a w' \<and>
        (\<forall>b. r = Inr b \<longrightarrow> b = length (frames w))) w"
proof -
  let ?R = "set coordinate_columns"
  let ?S = "{''section_id'', ''longitude'', ''latitude''}"
  let ?I = "copy_ok ?R ?S w a"
  have R: "''latitude'' \<in> ?R" "''longitude'' \<in> ?R" "''section_id'' \<in> ?R"
    by (simp_all add: coordinate_columns_def)
  have fin: "copy_ok ?R ?R w a w'" if "?I w'" for w'
    using that by (rule copy_ok_sets) (auto simp: coordinate_columns_def)
  have dev: "wp (store_device_query V B (length (frames w)) x c key) Q w1"
    if "?I w1" "c \<in> ?R" "c \<in> ?S" "x \<in> set (itertuples (frames w ! a))"
      "\<And>r w'. ?I w' \<Longrightarrow> Q r w'" for x c key Q w1
    using that(1,2,3) Index_itertuples [OF that(4)] that(5) by (rule store_device_query_step)
  have cast: "wp (assign_apply (length (frames w)) c c f) Q w1"
    if "?I w1" "c \<in> ?R" "c \<in> ?S" "\<And>r w'. ?I w' \<Longrightarrow> Q r w'" for c f Q w1
    using that by (rule assign_apply_step)
  have body: "wp (
              bnd (store_device_query V B (length (frames w)) x ''latitude'' ''CoordY'') (\<lambda>_.
              bnd (store_device_query V B (length (frames w)) x ''longitude'' ''CoordX'') (\<lambda>_.
              store_device_query V B (length (frames w)) x ''section_id'' ''SectionId'')))
          (\<lambda>r w'. ?I w') w1"
    if "x \<in> set (itertuples (frames w ! a))" "?I w1" for x w1
    using that
    by (auto simp: R split: sum.splits intro!: dev)
  show ?thesis
    unfolding get_coordinates_def
    apply simp
    apply (rule zero_column_step [where R = ?R, OF copy_ok_init R(1)])
    apply simp
    apply (rule zero_column_step [where R = ?R, OF _ R(2)], assumption)
    apply simp
    apply (rule zero_column_step [where R = ?R, OF _ R(3)], assumption)
    apply (simp only: wp_bnd wp_frame_rows sum.case copy_ok_input [OF _ a])
    apply (rule for_each_step [where I = ?I])
      apply assumption
     apply (erule (1) body)
    apply (auto simp: R fin split: sum.splits intro!: cast)
    done
qed

lemma get_load_copy:
  assumes a: "a < length (frames w)"
  shows "wp (get_load V B a)
     (\<lambda>r w'. copy_ok (set load_columns) (set load_columns) w a w' \<and>
        (\<forall>b. r = Inr b \<longrightarrow> b = length (frames w))) w"
proof -
  let ?R = "set load_columns"
  let ?S = "{''MVARTOT'', ''MVARC'', ''MVARB'', ''MVARA'', ''MWTOT'', ''MWC'', ''MWB'', ''MWA''}"
  let ?I = "copy_ok ?R ?S w a"
  have R: "''MWA'' \<in> ?R" "''MWB'' \<in> ?R" "''MWC'' \<in> ?R" "''MWTOT'' \<in> ?R"
    "''MVARA'' \<in> ?R" "''MVARB'' \<in> ?R" "''MVARC'' \<in> ?R" "''MVARTOT'' \<in> ?R"
    by (simp_all add: load_columns_def)
  have fin: "copy_ok ?R ?R w a w'" if "?I w'" for w'
    using that by (rule copy_ok_sets) (auto simp: load_columns_def)
  have dev: "wp (store_device_query V B (length (frames w)) x c key) Q w1"
    if "?I w1" "c \<in> ?R" "c \<in> ?S" "x \<in> set (itertuples (frames w ! a))"
      "\<And>r w'. ?I w' \<Longrightarrow> Q r w'" for x c key Q w1
    using that(1,2,3) Index_itertuples [OF that(4)] that(5) by (rule store_device_query_step)
  have cast: "wp (assign_apply (length (frames w)) c c f) Q w1"
    if "?I w1" "c \<in> ?R" "c \<in> ?S" "\<And>r w'. ?I w' \<Longrightarrow> Q r w'" for c f Q w1
    using that by (rule assign_apply_step)
  have body: "wp (
            bnd (store_device_query V B (length (frames w)) x ''MWA'' ''MWA'') (\<lambda>_.
            bnd (store_device_query V B (length (frames w)) x ''MWB'' ''MWB'') (\<lambda>_.
            bnd (store_device_query V B (length (frames w)) x ''MWC'' ''MWC'') (\<lambda>_.
            bnd (store_device_query V B (length (frames w)) x ''MWTOT'' ''MWTOT'') (\<lambda>_.
            bnd (store_device_query V B (length (frames w)) x ''MVARA'' ''MVARA'') (\<lambda>_.
            bnd (store_device_query V B (length (frames w)) x ''MVARB'' ''MVARB'') (\<lambda>_.
            bnd (store_device_query V B (length (frames w)) x ''MVARC'' ''MVARC'') (\<lambda>_.
            store_device_query V B (length (frames w)) x ''MVARTOT'' ''MVARTOT''))))))))
          (\<lambda>r w'. ?I w') w1"
    if "x \<in> set (itertuples (frames w ! a))" "?I w1" for x w1
    using that
    by (auto simp: R split: sum.splits intro!: dev)
  have casts: "wp (for_each load_columns (\<lambda>column.
            assign_apply (length (frames w)) column column (none_or_float B)))
          (\<lambda>r w'. ?I w') w1"
    if "?I w1" for w1
    using that
  proof (rule wp_for_each)
    fix x w2
    assume "x \<in> set load_columns" and "?I w2"
    then show "wp (assign_apply (length (frames w)) x x (none_or_float B)) (\<lambda>r w'. ?I w') w2"
      by (intro cast) (auto simp: load_columns_def)
  qed
  show ?thesis
    unfolding get_load_def
    apply simp
    apply (rule zero_column_step [where R = ?R, OF copy_ok_init R(1)])
    apply simp
    apply (rule zero_column_step [where R = ?R, OF _ R(2)], assumption)
    apply simp
    apply (rule zero_column_step [where R = ?R, OF _ R(3)], assumption)
    apply simp
    apply (rule zero_column_step [where R = ?R, OF _ R(4)], assumption)
    apply simp
    apply (rule zero_column_step [where R = ?R, OF _ R(5)], assumption)
    apply simp
    apply (rule zero_column_step [where R = ?R, OF _ R(6)], assumption)
    apply simp
    apply (rule zero_column_step [where R = ?R, OF _ R(7)], assumption)
    apply simp
    apply (rule zero_column_step [where R = ?R, OF _ R(8)], assumption)
    apply (simp only: wp_bnd wp_frame_rows sum.case copy_ok_input [OF _ a])
    apply (rule for_each_step [where I = ?I])
      apply assumption
     apply (erule (1) body)
    apply (auto simp: fin split: sum.splits intro!: wp_mono [OF casts])
    done
qed

end
